theory Spec2Isabelle
  imports Complex_Main
begin

section \<open>Grid-based A* routing (gdsfactory/routing/astar\_routing.py)\<close>

text \<open>
  A shallow embedding of \<^verbatim>\<open>astar_routing\<close>, \<^verbatim>\<open>_generate_grid\<close> and
  \<^verbatim>\<open>_generate_neighbours\<close>. Python and numpy floating point numbers are modelled as
  exact rationals; every exception the source can raise is a value of \<open>error\<close>; the
  \<^verbatim>\<open>while open_list\<close> loop, which need not terminate, is a partial function whose value
  \<open>None\<close> means that the loop runs forever.
\<close>

subsection \<open>Data\<close>

type_synonym point = "rat \<times> rat"

text \<open>A port: its center and its orientation (a number of degrees, or Python's \<^verbatim>\<open>None\<close>).\<close>

record port =
  center :: point
  orientation :: "rat option"

text \<open>A component: its bounding box (min corner, max corner) and the bounding boxes of
  its references, the obstacles.\<close>

record component =
  bbox :: "point \<times> point"
  references :: "(point \<times> point) list"

datatype error = KeyError | IndexError | ValueError | OverflowError | StopIteration

text \<open>
  Class \<^verbatim>\<open>Node\<close>. Nodes are compared with \<^verbatim>\<open>==\<close> in the source, which for a class
  without \<^verbatim>\<open>__eq__\<close> is object identity: \<open>ident\<close> is the identity of the object, a
  counter value taken when the node is created.
\<close>

datatype node = Node (parent: "node option") (position: point)
  (g: rat) (h: rat) (f: rat) (ident: nat)

text \<open>What the routing function hands back: the call it makes to one of its two external
  route builders, with the resolved cross-section (a name).\<close>

datatype route =
  Get_route_from_waypoints "point list" string
| Route_manhattan port port string

subsection \<open>Python and numpy primitives\<close>

text \<open>\<^verbatim>\<open>round(v)\<close>: to the nearest integer, a tie to the even one.\<close>

definition py_round :: "rat \<Rightarrow> int" where
  "py_round q =
     (let fl = \<lfloor>q\<rfloor>; d = q - of_int fl
      in if d < 1 / 2 then fl else if 1 / 2 < d then fl + 1
         else if even fl then fl else fl + 1)"

text \<open>\<^verbatim>\<open>int(a / b)\<close> on numpy floats: a division by zero gives an infinity or a NaN,
  which \<^verbatim>\<open>int\<close> refuses; otherwise \<^verbatim>\<open>int\<close> truncates towards zero.\<close>

definition int_of_quotient :: "rat \<Rightarrow> rat \<Rightarrow> error + int" where
  "int_of_quotient a b =
     (if b = 0 then (if a = 0 then Inl ValueError else Inl OverflowError)
      else Inr (if 0 \<le> a / b then \<lfloor>a / b\<rfloor> else \<lceil>a / b\<rceil>))"

text \<open>\<^verbatim>\<open>np.linspace(start, stop, num, endpoint=True)\<close>.\<close>

definition np_linspace :: "rat \<Rightarrow> rat \<Rightarrow> int \<Rightarrow> error + rat list" where
  "np_linspace start stop num =
     (if num < 0 then Inl ValueError
      else if num = 1 then Inr [start]
      else Inr (map (\<lambda>i. start + of_nat i * ((stop - start) / of_int (num - 1)))
                  [0..<nat num]))"

text \<open>\<^verbatim>\<open>np.ndarray.round(a, 3)\<close> on one entry.\<close>

definition np_round3 :: "rat \<Rightarrow> rat" where
  "np_round3 q = of_int (py_round (q * 1000)) / 1000"

text \<open>\<^verbatim>\<open>argmin\<close>: the first index of the least entry.\<close>

definition np_argmin :: "rat list \<Rightarrow> nat" where
  "np_argmin ds = fold (\<lambda>i cur. if ds ! i < ds ! cur then i else cur) [0..<length ds] 0"

text \<open>\<^verbatim>\<open>np.isclose(a, b, atol=atol)\<close> with the default relative tolerance \<open>1e-5\<close>.\<close>

definition np_isclose :: "rat \<Rightarrow> rat \<Rightarrow> rat \<Rightarrow> bool" where
  "np_isclose a b atol = (\<bar>a - b\<bar> \<le> atol + (1 / 100000) * \<bar>b\<bar>)"

text \<open>\<^verbatim>\<open>grid[xmin:xmax, ymin:ymax] = 1\<close>.\<close>

definition slice_assign :: "nat \<Rightarrow> nat \<Rightarrow> nat \<Rightarrow> nat \<Rightarrow> rat list list \<Rightarrow> rat list list" where
  "slice_assign xmin xmax ymin ymax grid =
     map (\<lambda>(i, row).
            if xmin \<le> i \<and> i < xmax
            then map (\<lambda>(j, v). if ymin \<le> j \<and> j < ymax then 1 else v) (zip [0..<length row] row)
            else row)
         (zip [0..<length grid] grid)"

subsection \<open>\_generate\_grid\<close>

text \<open>One pass of the loop over \<^verbatim>\<open>c.references\<close>.\<close>

definition mark_reference :: "rat list \<Rightarrow> rat list \<Rightarrow> point \<times> point \<Rightarrow> rat list list \<Rightarrow> rat list list" where
  "mark_reference xs ys rb grid =
     (let xmin = np_argmin (map (\<lambda>v. \<bar>v - fst (fst rb)\<bar>) xs);
          xmax = np_argmin (map (\<lambda>v. \<bar>v - fst (snd rb)\<bar>) xs);
          ymin = np_argmin (map (\<lambda>v. \<bar>v - snd (fst rb)\<bar>) ys);
          ymax = np_argmin (map (\<lambda>v. \<bar>v - snd (snd rb)\<bar>) ys)
      in slice_assign xmin xmax ymin ymax grid)"

text \<open>
  The two axes are built first (x, then y); \<^verbatim>\<open>x[0]\<close> and \<^verbatim>\<open>y[:, 0]\<close> on the
  meshgrid raise \<^verbatim>\<open>IndexError\<close> when the y axis, respectively the x axis, is empty.
  Only then is the occupancy array allocated and filled.
\<close>

definition generate_axes :: "component \<Rightarrow> rat \<Rightarrow> error + (rat list \<times> rat list)" where
  "generate_axes c resolution =
     (let b = bbox c in
      case int_of_quotient (fst (snd b) - fst (fst b)) resolution of
        Inl e \<Rightarrow> Inl e
      | Inr nx \<Rightarrow>
     (case np_linspace (fst (fst b)) (fst (snd b)) nx of
        Inl e \<Rightarrow> Inl e
      | Inr xs \<Rightarrow>
     (case int_of_quotient (snd (snd b) - snd (fst b)) resolution of
        Inl e \<Rightarrow> Inl e
      | Inr ny \<Rightarrow>
     (case np_linspace (snd (fst b)) (snd (snd b)) ny of
        Inl e \<Rightarrow> Inl e
      | Inr ys \<Rightarrow>
          if ys = [] then Inl IndexError
          else if xs = [] then Inl IndexError
          else Inr (xs, ys)))))"

definition generate_grid :: "component \<Rightarrow> rat \<Rightarrow> error + (rat list list \<times> rat list \<times> rat list)" where
  "generate_grid c resolution =
     (case generate_axes c resolution of
        Inl e \<Rightarrow> Inl e
      | Inr (xs, ys) \<Rightarrow>
          (let grid0 = replicate (length xs) (replicate (length ys) 0);
               grid = fold (mark_reference xs ys) (references c) grid0
           in Inr (map (map np_round3) grid, map np_round3 xs, map np_round3 ys)))"

subsection \<open>\_generate\_neighbours\<close>

text \<open>\<^verbatim>\<open>next(i for i, _ in enumerate(x) if np.isclose(_, v, atol=1))\<close>: the first index
  whose coordinate is close to \<open>v\<close>; \<^verbatim>\<open>StopIteration\<close> when there is none.\<close>

fun next_close :: "rat list \<Rightarrow> rat \<Rightarrow> nat \<Rightarrow> error + nat" where
  "next_close [] v i = Inl StopIteration"
| "next_close (a # as) v i = (if np_isclose a v 1 then Inr i else next_close as v (Suc i))"

text \<open>\<^verbatim>\<open>x.max()\<close> and \<^verbatim>\<open>x.min()\<close> of a non-empty array (on an empty one numpy
  raises \<^verbatim>\<open>ValueError\<close>, which the caller below checks first).\<close>

definition np_max :: "rat list \<Rightarrow> rat" where
  "np_max xs = fold max (tl xs) (hd xs)"

definition np_min :: "rat list \<Rightarrow> rat" where
  "np_min xs = fold min (tl xs) (hd xs)"

text \<open>
  The loop over the four offsets, in the source's order. \<open>acc\<close> is the list
  \<^verbatim>\<open>neighbours\<close> built so far and \<open>k\<close> the next free object identity. A candidate out
  of range, or whose looked-up cell holds 1, is skipped; a failed lookup raises. The
  range test is an \<^verbatim>\<open>or\<close> chain, so the y axis is only looked at when x is in range. The fields
  \<open>g\<close>, \<open>h\<close> and \<open>f\<close> of a new node are 0, as the constructor leaves them.
\<close>

fun neighbours_loop ::
  "node \<Rightarrow> rat list list \<Rightarrow> rat list \<Rightarrow> rat list \<Rightarrow> point list \<Rightarrow> node list \<Rightarrow> nat
     \<Rightarrow> error + (node list \<times> nat)" where
  "neighbours_loop cur grid xs ys [] acc k = Inr (acc, k)"
| "neighbours_loop cur grid xs ys (d # ds) acc k =
     (let node_position = (fst (position cur) + fst d, snd (position cur) + snd d) in
      if xs = [] then Inl ValueError
      else if fst node_position > np_max xs \<or> fst node_position < np_min xs
      then neighbours_loop cur grid xs ys ds acc k
      else if ys = [] then Inl ValueError
      else if snd node_position > np_max ys \<or> snd node_position < np_min ys
      then neighbours_loop cur grid xs ys ds acc k
      else
        (case next_close xs (fst node_position) 0 of
           Inl e \<Rightarrow> Inl e
         | Inr i \<Rightarrow>
             if length grid \<le> i then Inl IndexError
             else
               (case next_close ys (snd node_position) 0 of
                  Inl e \<Rightarrow> Inl e
                | Inr j \<Rightarrow>
                    if length (grid ! i) \<le> j then Inl IndexError
                    else if grid ! i ! j = 1 then neighbours_loop cur grid xs ys ds acc k
                    else neighbours_loop cur grid xs ys ds
                           (acc @ [Node (Some cur) node_position 0 0 0 k]) (Suc k))))"

definition generate_neighbours ::
  "node \<Rightarrow> rat list list \<Rightarrow> rat list \<Rightarrow> rat list \<Rightarrow> rat \<Rightarrow> nat \<Rightarrow> error + (node list \<times> nat)" where
  "generate_neighbours current_node grid xs ys resolution k =
     neighbours_loop current_node grid xs ys
       [(0, - resolution), (0, resolution), (- resolution, 0), (resolution, 0)] [] k"

subsection \<open>astar\_routing\<close>

text \<open>The orientation table: a dictionary lookup, \<open>None\<close> here being \<^verbatim>\<open>KeyError\<close>.\<close>

definition orientation_step :: "rat \<Rightarrow> rat option \<Rightarrow> point option" where
  "orientation_step resolution a =
     (case a of
        None \<Rightarrow> Some (0, 0)
      | Some d \<Rightarrow>
          if d = 0 then Some (resolution, 0)
          else if d = 90 then Some (0, resolution)
          else if d = 180 then Some (- resolution, 0)
          else if d = 270 then Some (0, - resolution)
          else None)"

text \<open>\<^verbatim>\<open>start_node\<close> and \<^verbatim>\<open>end_node\<close>: a root node at the rounded sum of the port's
  center and its step.\<close>

definition anchor_node :: "port \<Rightarrow> point \<Rightarrow> nat \<Rightarrow> node" where
  "anchor_node p step k =
     Node None (of_int (py_round (fst (center p) + fst step)),
                of_int (py_round (snd (center p) + snd step))) 0 0 0 k"

text \<open>What the loop reads and never changes.\<close>

record search_env =
  env_grid :: "rat list list"
  env_x :: "rat list"
  env_y :: "rat list"
  env_resolution :: rat
  env_end :: node
  env_input :: port
  env_output :: port
  env_cross_section :: string

text \<open>\<^verbatim>\<open>neighbour == other\<close>: identity of objects.\<close>

definition same_object :: "node \<Rightarrow> node \<Rightarrow> bool" where
  "same_object a b = (ident a = ident b)"

text \<open>
  The two inner scans of the neighbour loop. Their \<^verbatim>\<open>continue\<close> belongs to the scan
  itself, so each branch only goes on to the next element and the scan changes nothing.
\<close>

fun closed_scan :: "node \<Rightarrow> node list \<Rightarrow> unit" where
  "closed_scan neighbour [] = ()"
| "closed_scan neighbour (closed_neighbour # rest) =
     (if same_object neighbour closed_neighbour then closed_scan neighbour rest
      else closed_scan neighbour rest)"

fun open_scan :: "node \<Rightarrow> node list \<Rightarrow> unit" where
  "open_scan neighbour [] = ()"
| "open_scan neighbour (open_list_node # rest) =
     (if same_object neighbour open_list_node \<and> g neighbour > g open_list_node
      then open_scan neighbour rest
      else open_scan neighbour rest)"

text \<open>The cost assignment of lines 137-141.\<close>

definition set_costs :: "search_env \<Rightarrow> node \<Rightarrow> node \<Rightarrow> node" where
  "set_costs env current_node neighbour =
     (let g' = g current_node + env_resolution env;
          h' = (fst (position neighbour) - fst (position (env_end env))) ^ 2
             + (snd (position neighbour) - snd (position (env_end env))) ^ 2
      in Node (parent neighbour) (position neighbour) g' h' (g' + h') (ident neighbour))"

text \<open>The loop over \<^verbatim>\<open>neighbours\<close>; the result is the new \<^verbatim>\<open>open_list\<close>.\<close>

fun add_neighbours :: "search_env \<Rightarrow> node \<Rightarrow> node list \<Rightarrow> node list \<Rightarrow> node list \<Rightarrow> node list" where
  "add_neighbours env current_node [] closed_list open_list = open_list"
| "add_neighbours env current_node (neighbour # rest) closed_list open_list =
     (case closed_scan neighbour closed_list of () \<Rightarrow>
        (let neighbour' = set_costs env current_node neighbour in
         case open_scan neighbour' open_list of () \<Rightarrow>
           add_neighbours env current_node rest closed_list (open_list @ [neighbour'])))"

text \<open>The walk along the parent links, from a node to the root.\<close>

fun trace_back :: "node \<Rightarrow> point list" where
  "trace_back (Node None pos gv hv fv k) = [pos]"
| "trace_back (Node (Some p) pos gv hv fv k) = pos # trace_back p"

text \<open>The index of the node to expand: the first one of least \<open>f\<close>.\<close>

definition current_index :: "node list \<Rightarrow> nat" where
  "current_index open_list =
     fold (\<lambda>index cur. if f (open_list ! index) < f (open_list ! cur) then index else cur)
       [0..<length open_list] 0"

text \<open>One pass of the \<^verbatim>\<open>while\<close> loop on a non-empty open list: it returns the waypoints,
  raises, or goes on with a new open list, closed list and identity counter.\<close>

datatype step = Return "point list" | Raise error | Continue "node list" "node list" nat

definition astar_iteration :: "search_env \<Rightarrow> node list \<Rightarrow> node list \<Rightarrow> nat \<Rightarrow> step" where
  "astar_iteration env open_list closed_list k =
     (let ci = current_index open_list;
          current_node = open_list ! ci;
          open_list' = take ci open_list @ drop (Suc ci) open_list;
          closed_list' = closed_list @ [current_node]
      in if fst (position current_node) = fst (position (env_end env))
            \<and> snd (position current_node) = snd (position (env_end env))
         then Return (center (env_input env) # rev (trace_back current_node)
                        @ [center (env_output env)])
         else
           (case generate_neighbours current_node (env_grid env) (env_x env) (env_y env)
                   (env_resolution env) k of
              Inl e \<Rightarrow> Raise e
            | Inr (neighbours, k') \<Rightarrow>
                Continue (add_neighbours env current_node neighbours closed_list' open_list')
                  closed_list' k'))"

definition warning :: string where
  "warning = ''A* algorithm failed, resorting to Manhattan routing. Watch for overlaps.''"

text \<open>The \<^verbatim>\<open>while open_list\<close> loop with what follows it. A result is the list of warnings
  emitted and the route; \<open>None\<close> is a loop that never ends.\<close>

partial_function (option) astar_while ::
  "search_env \<Rightarrow> node list \<Rightarrow> node list \<Rightarrow> nat \<Rightarrow> (error + (string list \<times> route)) option" where
  "astar_while env open_list closed_list k =
     (if open_list = []
      then Some (Inr ([warning],
             Route_manhattan (env_input env) (env_output env) (env_cross_section env)))
      else
        (case astar_iteration env open_list closed_list k of
           Return points \<Rightarrow>
             Some (Inr ([], Get_route_from_waypoints points (env_cross_section env)))
         | Raise e \<Rightarrow> Some (Inl e)
         | Continue open_list' closed_list' k' \<Rightarrow> astar_while env open_list' closed_list' k'))"

declare astar_while.simps [code]

text \<open>The state after \<open>n\<close> further passes of the loop, when it makes that many.\<close>

fun astar_passes ::
  "nat \<Rightarrow> search_env \<Rightarrow> node list \<Rightarrow> node list \<Rightarrow> nat \<Rightarrow> (node list \<times> node list \<times> nat) option" where
  "astar_passes 0 env open_list closed_list k = Some (open_list, closed_list, k)"
| "astar_passes (Suc n) env open_list closed_list k =
     (if open_list = [] then None
      else
        (case astar_iteration env open_list closed_list k of
           Continue open_list' closed_list' k' \<Rightarrow> astar_passes n env open_list' closed_list' k'
         | _ \<Rightarrow> None))"

text \<open>The environment and the first open list that \<^verbatim>\<open>astar_routing\<close> sets up: the grid,
  then the two orientation lookups, then the two anchor nodes. The cross-section is
  resolved by the external \<^verbatim>\<open>gf.get_cross_section\<close> before anything else; its result is
  the argument \<open>cross_section\<close> here.\<close>

definition astar_setup ::
  "component \<Rightarrow> port \<Rightarrow> port \<Rightarrow> rat \<Rightarrow> string \<Rightarrow> error + (search_env \<times> node)" where
  "astar_setup c input_port output_port resolution cross_section =
     (case generate_grid c resolution of
        Inl e \<Rightarrow> Inl e
      | Inr (grid, xs, ys) \<Rightarrow>
          (case orientation_step resolution (orientation input_port) of
             None \<Rightarrow> Inl KeyError
           | Some input_orientation \<Rightarrow>
               (case orientation_step resolution (orientation output_port) of
                  None \<Rightarrow> Inl KeyError
                | Some output_orientation \<Rightarrow>
                    Inr (\<lparr>env_grid = grid, env_x = xs, env_y = ys,
                          env_resolution = resolution,
                          env_end = anchor_node output_port output_orientation 1,
                          env_input = input_port, env_output = output_port,
                          env_cross_section = cross_section\<rparr>,
                         anchor_node input_port input_orientation 0))))"

definition astar_routing ::
  "component \<Rightarrow> port \<Rightarrow> port \<Rightarrow> rat \<Rightarrow> string \<Rightarrow> (error + (string list \<times> route)) option" where
  "astar_routing c input_port output_port resolution cross_section =
     (case astar_setup c input_port output_port resolution cross_section of
        Inl e \<Rightarrow> Some (Inl e)
      | Inr (env, start_node) \<Rightarrow> astar_while env [start_node] [] 2)"

subsection \<open>Example layouts\<close>

text \<open>A layout of one cell: the bounding box (0,0)-(1,1) at resolution 1 has a single
  grid point, so the start node at (0,0) has no neighbour in range.\<close>

definition single_cell_layout :: component where
  "single_cell_layout = \<lparr>bbox = ((0, 0), (1, 1)), references = []\<rparr>"

definition corner_port :: port where
  "corner_port = \<lparr>center = (0, 0), orientation = None\<rparr>"

definition far_corner_port :: port where
  "far_corner_port = \<lparr>center = (1, 1), orientation = None\<rparr>"

text \<open>An obstacle-free layout (0,0)-(4,4) with two ports facing each other.\<close>

definition open_layout :: component where
  "open_layout = \<lparr>bbox = ((0, 0), (4, 4)), references = []\<rparr>"

definition west_port :: port where
  "west_port = \<lparr>center = (0, 2), orientation = Some 0\<rparr>"

definition east_port :: port where
  "east_port = \<lparr>center = (4, 2), orientation = Some 180\<rparr>"

text \<open>A port between grid lines, and one with an orientation outside the table.\<close>

definition offgrid_port :: port where
  "offgrid_port = \<lparr>center = (1 / 2, 2), orientation = Some 0\<rparr>"

definition skew_port :: port where
  "skew_port = \<lparr>center = (0, 2), orientation = Some 45\<rparr>"

text \<open>The layout (0,0)-(10,10) with a wall over x in [4,6] and the full height.\<close>

definition wall_layout :: component where
  "wall_layout = \<lparr>bbox = ((0, 0), (10, 10)), references = [((4, 0), (6, 10))]\<rparr>"

text \<open>The same bounding box without obstacles, and two ports on its west and east edge.\<close>

definition wide_layout :: component where
  "wide_layout = \<lparr>bbox = ((0, 0), (10, 10)), references = []\<rparr>"

definition wide_west_port :: port where
  "wide_west_port = \<lparr>center = (0, 5), orientation = Some 0\<rparr>"

definition wide_east_port :: port where
  "wide_east_port = \<lparr>center = (10, 5), orientation = Some 180\<rparr>"

text \<open>A layout (0,0)-(4.5,4.5) cut in two by a wall over x in [1.5,3] and the full
  height, with a port on either side.\<close>

definition blocked_layout :: component where
  "blocked_layout = \<lparr>bbox = ((0, 0), (9 / 2, 9 / 2)), references = [((3 / 2, 0), (3, 9 / 2))]\<rparr>"

definition blocked_east_port :: port where
  "blocked_east_port = \<lparr>center = (9 / 2, 2), orientation = Some 180\<rparr>"

text \<open>What \<^verbatim>\<open>astar_routing\<close> sets up for this layout and the ports at (0,2) and
  (4.5,2): the wall fills the second grid column up to the last row but one, the start
  node is (1,2) and the end node (4,2).\<close>

definition blocked_env :: search_env where
  "blocked_env = \<lparr>env_grid = [[0, 0, 0, 0], [1, 1, 1, 0], [0, 0, 0, 0], [0, 0, 0, 0]],
     env_x = [0, 3 / 2, 3, 9 / 2], env_y = [0, 3 / 2, 3, 9 / 2],
     env_resolution = 1, env_end = Node None (4, 2) 0 0 0 1,
     env_input = west_port, env_output = blocked_east_port,
     env_cross_section = ''strip''\<rparr>"

text \<open>A layout (0,0)-(2,2), for a grid at resolution 1/4.\<close>

definition fine_layout :: component where
  "fine_layout = \<lparr>bbox = ((0, 0), (2, 2)), references = []\<rparr>"

text \<open>A layout without extent along x.\<close>

definition flat_layout :: component where
  "flat_layout = \<lparr>bbox = ((0, 0), (0, 4)), references = []\<rparr>"

subsection \<open>Predicates for the proofs\<close>

text \<open>The cost fields along the parent chain of a node: the root has them all 0; any
  other node has the parent's \<open>g\<close> plus one resolution step, the squared distance to the
  end node as \<open>h\<close>, and their sum as \<open>f\<close>.\<close>

fun costs_consistent :: "search_env \<Rightarrow> node \<Rightarrow> bool" where
  "costs_consistent env (Node None pos gv hv fv k) = (gv = 0 \<and> hv = 0 \<and> fv = 0)"
| "costs_consistent env (Node (Some p) pos gv hv fv k) =
     (gv = g p + env_resolution env
      \<and> hv = (fst pos - fst (position (env_end env)))\<^sup>2
             + (snd pos - snd (position (env_end env)))\<^sup>2
      \<and> fv = gv + hv
      \<and> costs_consistent env p)"

text \<open>How the loop ends in a state: with the fallback on an empty open list, and otherwise
  with what a returning or raising pass gives.\<close>

definition loop_outcome ::
  "search_env \<Rightarrow> node list \<Rightarrow> node list \<Rightarrow> nat \<Rightarrow> error + (string list \<times> route) \<Rightarrow> bool" where
  "loop_outcome env ol cl k' res =
     (if ol = []
      then res = Inr ([warning],
             Route_manhattan (env_input env) (env_output env) (env_cross_section env))
      else (case astar_iteration env ol cl k' of
              Return points \<Rightarrow>
                res = Inr ([], Get_route_from_waypoints points (env_cross_section env))
            | Raise e \<Rightarrow> res = Inl e
            | Continue ol' cl' k'' \<Rightarrow> False))"

section \<open>Properties\<close>

subsection \<open>Basic facts\<close>

lemma fold_pick_less:
  "cur < m \<Longrightarrow> \<forall>i\<in>set is. i < m \<Longrightarrow> fold (\<lambda>i cur. if P i cur then i else cur) is cur < m"
  by (induction "is" arbitrary: cur) auto

lemma current_index_less: "open_list \<noteq> [] \<Longrightarrow> current_index open_list < length open_list"
  unfolding current_index_def by (rule fold_pick_less) auto

lemma set_costs_sel [simp]:
  "parent (set_costs env cur n) = parent n"
  "position (set_costs env cur n) = position n"
  "ident (set_costs env cur n) = ident n"
  "g (set_costs env cur n) = g cur + env_resolution env"
  "h (set_costs env cur n) = (fst (position n) - fst (position (env_end env)))\<^sup>2
      + (snd (position n) - snd (position (env_end env)))\<^sup>2"
  "f (set_costs env cur n) = g (set_costs env cur n) + h (set_costs env cur n)"
  by (simp_all add: set_costs_def Let_def)

text \<open>The two scans change nothing: every neighbour is appended to the open list.\<close>

lemma add_neighbours_eq:
  "add_neighbours env cur nbs closed_list open_list = open_list @ map (set_costs env cur) nbs"
  by (induction nbs arbitrary: open_list) (simp_all add: Let_def split: unit.splits)

lemma neighbours_loop_parent:
  "neighbours_loop cur grid xs ys ds acc k = Inr (nbs, k') \<Longrightarrow>
     \<exists>new. nbs = acc @ new \<and> (\<forall>n\<in>set new. parent n = Some cur)"
proof (induction ds arbitrary: acc k)
  case Nil
  then show ?case by simp
next
  case (Cons d ds)
  then show ?case
    by (fastforce simp: Let_def split: if_splits sum.splits)
qed

lemma generate_neighbours_parent:
  "generate_neighbours cur grid xs ys r k = Inr (nbs, k') \<Longrightarrow> n \<in> set nbs \<Longrightarrow> parent n = Some cur"
  unfolding generate_neighbours_def by (drule neighbours_loop_parent) auto

text \<open>The loop goes on from the state that \<open>n\<close> passes lead to.\<close>

lemma astar_passes_while:
  "astar_passes n env open_list closed_list k = Some (open_list', closed_list', k') \<Longrightarrow>
     astar_while env open_list closed_list k = astar_while env open_list' closed_list' k'"
proof (induction n arbitrary: open_list closed_list k)
  case 0
  then show ?case by simp
next
  case (Suc n)
  then show ?case
    by (subst astar_while.simps) (auto split: if_splits step.splits)
qed

text \<open>What a pass that goes on has done.\<close>

lemma iteration_Continue:
  assumes "astar_iteration env open_list closed_list k = Continue open_list' closed_list' k'"
    and "open_list \<noteq> []"
  obtains cur nbs where
    "cur \<in> set open_list"
    "position cur \<noteq> position (env_end env)"
    "generate_neighbours cur (env_grid env) (env_x env) (env_y env) (env_resolution env) k
       = Inr (nbs, k')"
    "closed_list' = closed_list @ [cur]"
    "set open_list' \<subseteq> set open_list \<union> set_costs env cur ` set nbs"
    "open_list' = take (current_index open_list) open_list
         @ drop (Suc (current_index open_list)) open_list @ map (set_costs env cur) nbs"
proof -
  let ?ci = "current_index open_list"
  let ?cur = "open_list ! ?ci"
  have lt: "?ci < length open_list" using assms(2) by (rule current_index_less)
  have 1: "?cur \<in> set open_list" using lt by simp
  from assms(1) have 2: "position ?cur \<noteq> position (env_end env)"
    by (auto simp: astar_iteration_def Let_def prod_eq_iff split: if_splits)
  from assms(1) 2 obtain nbs where
    3: "generate_neighbours ?cur (env_grid env) (env_x env) (env_y env) (env_resolution env) k
          = Inr (nbs, k')"
    and 4: "closed_list' = closed_list @ [?cur]"
    and 5: "open_list' = take ?ci open_list @ drop (Suc ?ci) open_list
              @ map (set_costs env ?cur) nbs"
    by (auto simp: astar_iteration_def Let_def prod_eq_iff add_neighbours_eq
        split: if_splits sum.splits)
  have 6: "set open_list' \<subseteq> set open_list \<union> set_costs env ?cur ` set nbs"
    unfolding 5 using set_take_subset[of ?ci open_list] set_drop_subset[of "Suc ?ci" open_list]
    by auto
  show ?thesis using that[OF 1 2 3 4 6 5] .
qed

lemma astar_setup_Inr:
  assumes "astar_setup c p_in p_out r xs = Inr (env, s)"
  obtains grid ax ay io oo where
    "generate_grid c r = Inr (grid, ax, ay)"
    "orientation_step r (orientation p_in) = Some io"
    "orientation_step r (orientation p_out) = Some oo"
    "env = \<lparr>env_grid = grid, env_x = ax, env_y = ay, env_resolution = r,
            env_end = anchor_node p_out oo 1, env_input = p_in, env_output = p_out,
            env_cross_section = xs\<rparr>"
    "s = anchor_node p_in io 0"
  using assms
  by (auto simp: astar_setup_def split: sum.splits option.splits prod.splits)

subsection \<open>The fallback\<close>

text \<open>
  Claim C9. Whenever the open list becomes empty after some number of passes of the loop
  (none of which reached the goal or raised), the routing function emits the warning and
  returns what the fallback builder \<^verbatim>\<open>route_manhattan\<close> gives for the two ports and the
  resolved cross-section: neither an error nor an empty result.
\<close>

theorem exhausted_frontier_falls_back:
  assumes "astar_setup c p_in p_out r xs = Inr (env, s)"
    and "astar_passes n env [s] [] 2 = Some ([], closed_list, k)"
  shows "astar_routing c p_in p_out r xs
           = Some (Inr ([warning], Route_manhattan p_in p_out xs))"
proof -
  have "astar_while env [s] [] 2 = astar_while env [] closed_list k"
    using assms(2) by (rule astar_passes_while)
  also have "\<dots> = Some (Inr ([warning],
      Route_manhattan (env_input env) (env_output env) (env_cross_section env)))"
    by (subst astar_while.simps) simp
  finally have loop: "astar_while env [s] [] 2 = Some (Inr ([warning],
      Route_manhattan (env_input env) (env_output env) (env_cross_section env)))" .
  have "env_input env = p_in" "env_output env = p_out" "env_cross_section env = xs"
    using assms(1) by (auto elim!: astar_setup_Inr)
  with loop show ?thesis
    using assms(1) by (simp add: astar_routing_def)
qed

theorem exhausted_frontier_falls_back_witness:
  "astar_routing single_cell_layout corner_port far_corner_port 1 ''strip''
     = Some (Inr ([warning], Route_manhattan corner_port far_corner_port ''strip''))"
proof -
  have 1: "astar_setup single_cell_layout corner_port far_corner_port 1 ''strip''
      = Inr (\<lparr>env_grid = [[0]], env_x = [0], env_y = [0], env_resolution = 1,
               env_end = Node None (1, 1) 0 0 0 1, env_input = corner_port,
               env_output = far_corner_port, env_cross_section = ''strip''\<rparr>,
             Node None (0, 0) 0 0 0 0)"
    by code_simp
  have 2: "astar_passes 1 \<lparr>env_grid = [[0]], env_x = [0], env_y = [0], env_resolution = 1,
               env_end = Node None (1, 1) 0 0 0 1, env_input = corner_port,
               env_output = far_corner_port, env_cross_section = ''strip''\<rparr>
             [Node None (0, 0) 0 0 0 0] [] 2 = Some ([], [Node None (0, 0) 0 0 0 0], 2)"
    by code_simp
  show ?thesis using exhausted_frontier_falls_back[OF 1 2] .
qed

subsection \<open>Start and end anchoring\<close>

lemma py_round_of_int: "py_round (of_int n) = n"
  by (simp add: py_round_def)

lemma py_round_near: "\<bar>of_int (py_round q) - q\<bar> \<le> 1 / 2"
proof -
  have "of_int \<lfloor>q\<rfloor> \<le> q" "q < of_int \<lfloor>q\<rfloor> + 1" by linarith+
  then show ?thesis
    by (auto simp: py_round_def Let_def)
qed

lemma py_round_Ints: "q \<in> \<int> \<Longrightarrow> of_int (py_round q) = q"
  by (auto elim!: Ints_cases simp: py_round_of_int)

text \<open>
  Claim C7, as stated, fails: the node position is not the port's center offset by exactly
  one step. The port at (1/2, 2) with orientation 0 and resolution 1 gives the start node
  (2, 2), not (3/2, 2), because the source rounds the sum.
\<close>

theorem anchor_exact_offset_counterexample:
  "\<not> (\<forall>c p_in p_out r xs env s io.
        astar_setup c p_in p_out r xs = Inr (env, s) \<longrightarrow>
        orientation_step r (orientation p_in) = Some io \<longrightarrow>
        position s = (fst (center p_in) + fst io, snd (center p_in) + snd io))"
proof
  assume a: "\<forall>c p_in p_out r xs env s io.
        astar_setup c p_in p_out r xs = Inr (env, s) \<longrightarrow>
        orientation_step r (orientation p_in) = Some io \<longrightarrow>
        position s = (fst (center p_in) + fst io, snd (center p_in) + snd io)"
  have 1: "astar_setup open_layout offgrid_port east_port 1 ''strip''
      = Inr (\<lparr>env_grid = replicate 4 (replicate 4 0),
               env_x = [0, 1333 / 1000, 2667 / 1000, 4], env_y = [0, 1333 / 1000, 2667 / 1000, 4],
               env_resolution = 1,
               env_end = Node None (3, 2) 0 0 0 1, env_input = offgrid_port,
               env_output = east_port, env_cross_section = ''strip''\<rparr>,
             Node None (2, 2) 0 0 0 0)"
    by code_simp
  have 2: "orientation_step 1 (orientation offgrid_port) = Some (1, 0)"
    by (simp add: orientation_step_def offgrid_port_def)
  from a 1 2 have "position (Node None (2, 2) 0 0 0 0)
      = (fst (center offgrid_port) + fst (1::rat, 0::rat), snd (center offgrid_port) + snd (1::rat, 0::rat))"
    by blast
  then show False by (simp add: offgrid_port_def)
qed

text \<open>
  Claim C7, amended. When the set-up succeeds, each port's orientation maps to its step
  vector (0 to (+r, 0), 90 to (0, +r), 180 to (-r, 0), 270 to (0, -r), none to (0, 0)), and
  the start and end node positions are the port's center offset by that step and then
  rounded, on each axis, to the nearest integer (a tie to the even one): they lie within
  1/2 of the offset center and equal it whenever it is integral.
\<close>

theorem anchor_is_rounded_offset:
  assumes "astar_setup c p_in p_out r xs = Inr (env, s)"
  shows "\<exists>io oo.
      orientation_step r (orientation p_in) = Some io
    \<and> orientation_step r (orientation p_out) = Some oo
    \<and> io = (case orientation p_in of None \<Rightarrow> (0, 0)
             | Some d \<Rightarrow> if d = 0 then (r, 0) else if d = 90 then (0, r)
                         else if d = 180 then (- r, 0) else (0, - r))
    \<and> oo = (case orientation p_out of None \<Rightarrow> (0, 0)
             | Some d \<Rightarrow> if d = 0 then (r, 0) else if d = 90 then (0, r)
                         else if d = 180 then (- r, 0) else (0, - r))
    \<and> position s = (of_int (py_round (fst (center p_in) + fst io)),
                     of_int (py_round (snd (center p_in) + snd io)))
    \<and> position (env_end env) = (of_int (py_round (fst (center p_out) + fst oo)),
                     of_int (py_round (snd (center p_out) + snd oo)))
    \<and> \<bar>fst (position s) - (fst (center p_in) + fst io)\<bar> \<le> 1 / 2
    \<and> \<bar>snd (position s) - (snd (center p_in) + snd io)\<bar> \<le> 1 / 2
    \<and> \<bar>fst (position (env_end env)) - (fst (center p_out) + fst oo)\<bar> \<le> 1 / 2
    \<and> \<bar>snd (position (env_end env)) - (snd (center p_out) + snd oo)\<bar> \<le> 1 / 2
    \<and> (fst (center p_in) + fst io \<in> \<int> \<and> snd (center p_in) + snd io \<in> \<int>
         \<longrightarrow> position s = (fst (center p_in) + fst io, snd (center p_in) + snd io))
    \<and> (fst (center p_out) + fst oo \<in> \<int> \<and> snd (center p_out) + snd oo \<in> \<int>
         \<longrightarrow> position (env_end env) = (fst (center p_out) + fst oo, snd (center p_out) + snd oo))"
proof -
  from assms obtain grid ax ay io oo where
    io: "orientation_step r (orientation p_in) = Some io"
    and oo: "orientation_step r (orientation p_out) = Some oo"
    and env: "env_end env = anchor_node p_out oo 1"
    and s: "s = anchor_node p_in io 0"
    by (elim astar_setup_Inr) simp
  have tab_in: "io = (case orientation p_in of None \<Rightarrow> (0, 0)
             | Some d \<Rightarrow> if d = 0 then (r, 0) else if d = 90 then (0, r)
                         else if d = 180 then (- r, 0) else (0, - r))"
    using io by (auto simp: orientation_step_def split: option.splits if_splits)
  have tab_out: "oo = (case orientation p_out of None \<Rightarrow> (0, 0)
             | Some d \<Rightarrow> if d = 0 then (r, 0) else if d = 90 then (0, r)
                         else if d = 180 then (- r, 0) else (0, - r))"
    using oo by (auto simp: orientation_step_def split: option.splits if_splits)
  have pos_s: "position s = (of_int (py_round (fst (center p_in) + fst io)),
                     of_int (py_round (snd (center p_in) + snd io)))"
    by (simp add: s anchor_node_def)
  have pos_e: "position (env_end env) = (of_int (py_round (fst (center p_out) + fst oo)),
                     of_int (py_round (snd (center p_out) + snd oo)))"
    by (simp add: env anchor_node_def)
  show ?thesis
    apply (rule exI[of _ io], rule exI[of _ oo])
    apply (intro conjI io oo tab_in tab_out pos_s pos_e)
    apply (simp_all only: pos_s pos_e fst_conv snd_conv py_round_near)
    apply (simp_all add: py_round_Ints)
    done
qed

theorem anchor_is_rounded_offset_witness:
  "\<exists>env s io.
      astar_setup open_layout offgrid_port east_port 1 ''strip'' = Inr (env, s)
    \<and> orientation_step 1 (orientation offgrid_port) = Some io
    \<and> io = (1, 0)
    \<and> position s = (2, 2)
    \<and> \<bar>fst (position s) - (fst (center offgrid_port) + fst io)\<bar> \<le> 1 / 2
    \<and> position (env_end env) = (3, 2)"
proof -
  have 1: "astar_setup open_layout offgrid_port east_port 1 ''strip''
      = Inr (\<lparr>env_grid = replicate 4 (replicate 4 0),
               env_x = [0, 1333 / 1000, 2667 / 1000, 4], env_y = [0, 1333 / 1000, 2667 / 1000, 4],
               env_resolution = 1,
               env_end = Node None (3, 2) 0 0 0 1, env_input = offgrid_port,
               env_output = east_port, env_cross_section = ''strip''\<rparr>,
             Node None (2, 2) 0 0 0 0)"
    by code_simp
  show ?thesis
    using anchor_is_rounded_offset[OF 1] 1
    by (auto simp: offgrid_port_def east_port_def)
qed

subsection \<open>Configuration errors\<close>

lemma astar_routing_axes_error:
  "generate_axes c r = Inl e \<Longrightarrow> astar_routing c p_in p_out r xs = Some (Inl e)"
  by (simp add: astar_routing_def astar_setup_def generate_grid_def)

lemma orientation_step_None:
  "a \<notin> {None, Some 0, Some 90, Some 180, Some 270} \<Longrightarrow> orientation_step r a = None"
  by (auto simp: orientation_step_def split: option.splits)

lemma linspace_nonpos:
  "n \<le> 0 \<Longrightarrow> np_linspace a b n = Inl ValueError \<or> np_linspace a b n = Inr []"
  by (auto simp: np_linspace_def)

lemma quotient_nonpos:
  assumes "a = 0 \<or> (r \<le> 0 \<and> 0 \<le> a)"
  shows "(\<exists>e. int_of_quotient a r = Inl e) \<or> (\<exists>n\<le>0. int_of_quotient a r = Inr n)"
proof (cases "r = 0")
  case True
  then show ?thesis by (simp add: int_of_quotient_def)
next
  case False
  have "a / r \<le> 0" using assms False by (auto simp: divide_le_0_iff)
  then have "(if 0 \<le> a / r then \<lfloor>a / r\<rfloor> else \<lceil>a / r\<rceil>) \<le> 0"
    by (auto simp: ceiling_le_zero)
  then show ?thesis using False by (simp add: int_of_quotient_def)
qed

lemma axes_error_x:
  assumes "(\<exists>e. int_of_quotient (fst (snd (bbox c)) - fst (fst (bbox c))) r = Inl e)
         \<or> (\<exists>n\<le>0. int_of_quotient (fst (snd (bbox c)) - fst (fst (bbox c))) r = Inr n)"
  shows "\<exists>e. generate_axes c r = Inl e"
proof -
  from assms consider e where "int_of_quotient (fst (snd (bbox c)) - fst (fst (bbox c))) r = Inl e"
    | n where "n \<le> 0" "int_of_quotient (fst (snd (bbox c)) - fst (fst (bbox c))) r = Inr n"
    by blast
  then show ?thesis
  proof cases
    case 1
    then show ?thesis by (simp add: generate_axes_def Let_def)
  next
    case 2
    from linspace_nonpos[OF 2(1), of "fst (fst (bbox c))" "fst (snd (bbox c))"] 2(2)
    show ?thesis
      by (auto simp: generate_axes_def Let_def split: sum.splits)
  qed
qed

lemma axes_error_y:
  assumes "(\<exists>e. int_of_quotient (snd (snd (bbox c)) - snd (fst (bbox c))) r = Inl e)
         \<or> (\<exists>n\<le>0. int_of_quotient (snd (snd (bbox c)) - snd (fst (bbox c))) r = Inr n)"
  shows "\<exists>e. generate_axes c r = Inl e"
proof -
  from assms consider e where "int_of_quotient (snd (snd (bbox c)) - snd (fst (bbox c))) r = Inl e"
    | n where "n \<le> 0" "int_of_quotient (snd (snd (bbox c)) - snd (fst (bbox c))) r = Inr n"
    by blast
  then show ?thesis
  proof cases
    case 1
    then show ?thesis by (auto simp: generate_axes_def Let_def split: sum.splits)
  next
    case 2
    from linspace_nonpos[OF 2(1), of "snd (fst (bbox c))" "snd (snd (bbox c))"] 2(2)
    show ?thesis
      by (auto simp: generate_axes_def Let_def split: sum.splits)
  qed
qed

text \<open>
  Claim C4, as stated, fails for an unrecognized orientation: the orientation tables are
  consulted after \<^verbatim>\<open>_generate_grid\<close> has returned. With the orientation 45 on the
  obstacle-free layout (0,0)-(4,4), grid generation completes and returns the occupancy
  grid, and only then is \<^verbatim>\<open>KeyError\<close> raised.
\<close>

theorem grid_built_before_orientation_counterexample:
  "orientation skew_port \<notin> {None, Some 0, Some 90, Some 180, Some 270}
 \<and> generate_grid open_layout 1 = Inr (replicate 4 (replicate 4 0),
      [0, 1333 / 1000, 2667 / 1000, 4], [0, 1333 / 1000, 2667 / 1000, 4])
 \<and> astar_routing open_layout skew_port east_port 1 ''strip'' = Some (Inl KeyError)"
proof (intro conjI)
  show "orientation skew_port \<notin> {None, Some 0, Some 90, Some 180, Some 270}"
    by (simp add: skew_port_def)
  show "generate_grid open_layout 1 = Inr (replicate 4 (replicate 4 0),
      [0, 1333 / 1000, 2667 / 1000, 4], [0, 1333 / 1000, 2667 / 1000, 4])"
    by code_simp
  show "astar_routing open_layout skew_port east_port 1 ''strip'' = Some (Inl KeyError)"
    by code_simp
qed

text \<open>
  Claim C4, amended. Every input with a port orientation outside the five recognized
  values, or with a bounding box of zero extent on an axis, or with a non-positive
  resolution (and a bounding box whose max corner is not below its min corner) makes the
  routing function raise an error instead of returning a route. A degenerate bounding box
  and a non-positive resolution fail while the axes are built, before the occupancy array
  is allocated; an unrecognized orientation fails with \<^verbatim>\<open>KeyError\<close> after a successful
  grid generation.
\<close>

theorem configuration_errors_raise:
  "(orientation p_in \<notin> {None, Some 0, Some 90, Some 180, Some 270}
      \<or> orientation p_out \<notin> {None, Some 0, Some 90, Some 180, Some 270}
    \<longrightarrow> (\<exists>e. astar_routing c p_in p_out r xs = Some (Inl e))
      \<and> (\<forall>G. generate_grid c r = Inr G
              \<longrightarrow> astar_routing c p_in p_out r xs = Some (Inl KeyError)))
 \<and> (fst (fst (bbox c)) = fst (snd (bbox c)) \<or> snd (fst (bbox c)) = snd (snd (bbox c))
    \<longrightarrow> (\<exists>e. generate_axes c r = Inl e \<and> astar_routing c p_in p_out r xs = Some (Inl e)))
 \<and> (r \<le> 0 \<and> fst (fst (bbox c)) \<le> fst (snd (bbox c)) \<and> snd (fst (bbox c)) \<le> snd (snd (bbox c))
    \<longrightarrow> (\<exists>e. generate_axes c r = Inl e \<and> astar_routing c p_in p_out r xs = Some (Inl e)))"
proof (intro conjI impI)
  assume bad: "orientation p_in \<notin> {None, Some 0, Some 90, Some 180, Some 270}
      \<or> orientation p_out \<notin> {None, Some 0, Some 90, Some 180, Some 270}"
  then have none: "orientation_step r (orientation p_in) = None
      \<or> orientation_step r (orientation p_out) = None"
  proof
    assume "orientation p_in \<notin> {None, Some 0, Some 90, Some 180, Some 270}"
    then have "orientation_step r (orientation p_in) = None" by (rule orientation_step_None)
    then show ?thesis ..
  next
    assume "orientation p_out \<notin> {None, Some 0, Some 90, Some 180, Some 270}"
    then have "orientation_step r (orientation p_out) = None" by (rule orientation_step_None)
    then show ?thesis ..
  qed
  then have st: "\<exists>e. astar_setup c p_in p_out r xs = Inl e"
    by (auto simp: astar_setup_def split: sum.splits option.splits)
  then show "\<exists>e. astar_routing c p_in p_out r xs = Some (Inl e)"
    by (auto simp: astar_routing_def)
  show "\<forall>G. generate_grid c r = Inr G
              \<longrightarrow> astar_routing c p_in p_out r xs = Some (Inl KeyError)"
    using none by (auto simp: astar_routing_def astar_setup_def split: option.splits)
next
  assume "fst (fst (bbox c)) = fst (snd (bbox c)) \<or> snd (fst (bbox c)) = snd (snd (bbox c))"
  then have "\<exists>e. generate_axes c r = Inl e"
  proof
    assume "fst (fst (bbox c)) = fst (snd (bbox c))"
    then have "fst (snd (bbox c)) - fst (fst (bbox c)) = 0 \<or> (r \<le> 0 \<and> 0 \<le> fst (snd (bbox c)) - fst (fst (bbox c)))"
      by simp
    then show ?thesis by (rule axes_error_x[OF quotient_nonpos])
  next
    assume "snd (fst (bbox c)) = snd (snd (bbox c))"
    then have "snd (snd (bbox c)) - snd (fst (bbox c)) = 0 \<or> (r \<le> 0 \<and> 0 \<le> snd (snd (bbox c)) - snd (fst (bbox c)))"
      by simp
    then show ?thesis by (rule axes_error_y[OF quotient_nonpos])
  qed
  then show "\<exists>e. generate_axes c r = Inl e \<and> astar_routing c p_in p_out r xs = Some (Inl e)"
    using astar_routing_axes_error by blast
next
  assume "r \<le> 0 \<and> fst (fst (bbox c)) \<le> fst (snd (bbox c)) \<and> snd (fst (bbox c)) \<le> snd (snd (bbox c))"
  then have "fst (snd (bbox c)) - fst (fst (bbox c)) = 0 \<or> (r \<le> 0 \<and> 0 \<le> fst (snd (bbox c)) - fst (fst (bbox c)))"
    by simp
  then have "\<exists>e. generate_axes c r = Inl e"
    by (rule axes_error_x[OF quotient_nonpos])
  then show "\<exists>e. generate_axes c r = Inl e \<and> astar_routing c p_in p_out r xs = Some (Inl e)"
    using astar_routing_axes_error by blast
qed

theorem configuration_errors_raise_witness:
  "astar_routing open_layout skew_port east_port 1 ''strip'' = Some (Inl KeyError)
 \<and> (\<exists>e. generate_axes flat_layout 1 = Inl e
        \<and> astar_routing flat_layout west_port east_port 1 ''strip'' = Some (Inl e))
 \<and> (\<exists>e. generate_axes open_layout (- 1) = Inl e
        \<and> astar_routing open_layout west_port east_port (- 1) ''strip'' = Some (Inl e))"
proof -
  have 1: "generate_grid open_layout 1 = Inr (replicate 4 (replicate 4 0),
      [0, 1333 / 1000, 2667 / 1000, 4], [0, 1333 / 1000, 2667 / 1000, 4])"
    by code_simp
  have 2: "orientation skew_port \<notin> {None, Some 0, Some 90, Some 180, Some 270}"
    by (simp add: skew_port_def)
  have 3: "fst (fst (bbox flat_layout)) = fst (snd (bbox flat_layout))"
    by (simp add: flat_layout_def)
  have 4: "(- 1::rat) \<le> 0 \<and> fst (fst (bbox open_layout)) \<le> fst (snd (bbox open_layout))
      \<and> snd (fst (bbox open_layout)) \<le> snd (snd (bbox open_layout))"
    by (simp add: open_layout_def)
  have a: "astar_routing open_layout skew_port east_port 1 ''strip'' = Some (Inl KeyError)"
    using configuration_errors_raise[of skew_port east_port open_layout 1 "''strip''"] 1 2
    by simp
  have b: "\<exists>e. generate_axes flat_layout 1 = Inl e
        \<and> astar_routing flat_layout west_port east_port 1 ''strip'' = Some (Inl e)"
    using configuration_errors_raise[of west_port east_port flat_layout 1 "''strip''"] 3
    by simp
  have c: "\<exists>e. generate_axes open_layout (- 1) = Inl e
        \<and> astar_routing open_layout west_port east_port (- 1) ''strip'' = Some (Inl e)"
    using configuration_errors_raise[of west_port east_port open_layout "- 1" "''strip''"] 4
    by simp
  show ?thesis using a b c by (intro conjI)
qed

subsection \<open>The nearest-cell lookup\<close>

lemma next_close_shift: "next_close xs v (Suc i) = map_sum id Suc (next_close xs v i)"
  by (induction xs arbitrary: i) auto

lemma next_close_Inr_iff:
  "next_close xs v 0 = Inr j \<longleftrightarrow>
     j < length xs \<and> np_isclose (xs ! j) v 1 \<and> (\<forall>k<j. \<not> np_isclose (xs ! k) v 1)"
proof (induction xs arbitrary: j)
  case Nil
  then show ?case by simp
next
  case (Cons a as)
  show ?case
  proof (cases "np_isclose a v 1")
    case True
    then show ?thesis
      by (cases j) (auto simp: next_close_shift)
  next
    case False
    show ?thesis
    proof (cases j)
      case 0
      with False show ?thesis
        by (cases "next_close as v 0") (auto simp: next_close_shift)
    next
      case (Suc j')
      have "next_close (a # as) v 0 = Inr (Suc j') \<longleftrightarrow> next_close as v 0 = Inr j'"
        using False by (cases "next_close as v 0") (auto simp: next_close_shift)
      also have "\<dots> \<longleftrightarrow> j' < length as \<and> np_isclose (as ! j') v 1
          \<and> (\<forall>k<j'. \<not> np_isclose (as ! k) v 1)"
        by (rule Cons.IH)
      also have "\<dots> \<longleftrightarrow> Suc j' < length (a # as) \<and> np_isclose ((a # as) ! Suc j') v 1
          \<and> (\<forall>k<Suc j'. \<not> np_isclose ((a # as) ! k) v 1)"
        using False by (auto simp: less_Suc_eq_0_disj)
      finally show ?thesis using Suc by simp
    qed
  qed
qed

lemma next_close_Inl_iff:
  "next_close xs v i = Inl e \<longleftrightarrow> e = StopIteration \<and> (\<forall>a\<in>set xs. \<not> np_isclose a v 1)"
  by (induction xs arbitrary: i) auto


lemma fold_max_in: "fold max ys (a::rat) \<in> insert a (set ys)"
  by (induction ys arbitrary: a) (auto simp: max_def)

lemma fold_min_in: "fold min ys (a::rat) \<in> insert a (set ys)"
  by (induction ys arbitrary: a) (auto simp: min_def)

lemma np_max_in: "xs \<noteq> [] \<Longrightarrow> np_max xs \<in> set xs"
  using fold_max_in[of "tl xs" "hd xs"] by (cases xs) (auto simp: np_max_def)

lemma np_min_in: "xs \<noteq> [] \<Longrightarrow> np_min xs \<in> set xs"
  using fold_min_in[of "tl xs" "hd xs"] by (cases xs) (auto simp: np_min_def)

text \<open>Between a coordinate below and a coordinate above, an axis whose neighbouring
  coordinates are at most 2 apart has a coordinate within 1.\<close>

lemma close_coordinate_exists:
  fixes xs :: "rat list"
  assumes "\<forall>i. Suc i < length xs \<longrightarrow> \<bar>xs ! Suc i - xs ! i\<bar> \<le> 2"
    and "a \<in> set xs" "b \<in> set xs" "a \<le> v" "v \<le> b"
  shows "\<exists>c\<in>set xs. \<bar>c - v\<bar> \<le> 1"
  using assms
proof (induction xs arbitrary: a b)
  case Nil
  then show ?case by simp
next
  case (Cons x rest)
  show ?case
  proof (cases "\<bar>x - v\<bar> \<le> 1")
    case True
    then show ?thesis by auto
  next
    case False
    have gaps: "\<forall>i. Suc i < length rest \<longrightarrow> \<bar>rest ! Suc i - rest ! i\<bar> \<le> 2"
    proof (intro allI impI)
      fix i assume "Suc i < length rest"
      then have "\<bar>(x # rest) ! Suc (Suc i) - (x # rest) ! Suc i\<bar> \<le> 2"
        using Cons.prems(1) by (metis Suc_less_eq length_Cons)
      then show "\<bar>rest ! Suc i - rest ! i\<bar> \<le> 2" by simp
    qed
    from False consider "x < v - 1" | "v + 1 < x" by linarith
    then show ?thesis
    proof cases
      case 1
      then have "b \<noteq> x" using Cons.prems(5) by linarith
      then have b: "b \<in> set rest" using Cons.prems(3) by simp
      then obtain y rest' where rest: "rest = y # rest'" by (cases rest) auto
      have "\<bar>(x # rest) ! Suc 0 - (x # rest) ! 0\<bar> \<le> 2"
        using Cons.prems(1) rest by (metis length_Cons Suc_less_eq zero_less_Suc)
      then have y: "\<bar>y - x\<bar> \<le> 2" by (simp add: rest)
      show ?thesis
      proof (cases "y \<le> v")
        case True
        have "y \<in> set rest" by (simp add: rest)
        from Cons.IH[OF gaps this b True Cons.prems(5)] show ?thesis by auto
      next
        case False
        then have "\<bar>y - v\<bar> \<le> 1" using y 1 by linarith
        then show ?thesis by (auto simp: rest)
      qed
    next
      case 2
      then have "a \<noteq> x" using Cons.prems(4) by linarith
      then have a: "a \<in> set rest" using Cons.prems(2) by simp
      then obtain y rest' where rest: "rest = y # rest'" by (cases rest) auto
      have "\<bar>(x # rest) ! Suc 0 - (x # rest) ! 0\<bar> \<le> 2"
        using Cons.prems(1) rest by (metis length_Cons Suc_less_eq zero_less_Suc)
      then have y: "\<bar>y - x\<bar> \<le> 2" by (simp add: rest)
      show ?thesis
      proof (cases "v \<le> y")
        case True
        have "y \<in> set rest" by (simp add: rest)
        from Cons.IH[OF gaps a this Cons.prems(4) True] show ?thesis by auto
      next
        case False
        then have "\<bar>y - v\<bar> \<le> 1" using y 2 by linarith
        then show ?thesis by (auto simp: rest)
      qed
    qed
  qed
qed

lemma isclose_of_near: "\<bar>c - v\<bar> \<le> 1 \<Longrightarrow> np_isclose c v 1"
proof -
  assume "\<bar>c - v\<bar> \<le> 1"
  moreover have "0 \<le> (1 / 100000) * \<bar>v\<bar>" by simp
  ultimately show ?thesis unfolding np_isclose_def by linarith
qed

lemma lookup_in_range:
  assumes "xs \<noteq> []" "\<forall>i. Suc i < length xs \<longrightarrow> \<bar>xs ! Suc i - xs ! i\<bar> \<le> 2"
    and "\<not> (v > np_max xs \<or> v < np_min xs)"
  shows "\<exists>i<length xs. next_close xs v 0 = Inr i"
proof -
  from assms(3) have "np_min xs \<le> v" "v \<le> np_max xs" by auto
  with close_coordinate_exists[OF assms(2) np_min_in[OF assms(1)] np_max_in[OF assms(1)]]
  obtain c where "c \<in> set xs" "\<bar>c - v\<bar> \<le> 1" by blast
  then have "\<not> (\<forall>a\<in>set xs. \<not> np_isclose a v 1)" using isclose_of_near by blast
  then have "\<forall>e. next_close xs v 0 \<noteq> Inl e" by (simp add: next_close_Inl_iff)
  then obtain i where "next_close xs v 0 = Inr i" by (cases "next_close xs v 0") auto
  then show ?thesis using next_close_Inr_iff[of xs v i] by auto
qed

lemma neighbours_loop_total:
  assumes "xs \<noteq> []" "ys \<noteq> []"
    and "\<forall>i. Suc i < length xs \<longrightarrow> \<bar>xs ! Suc i - xs ! i\<bar> \<le> 2"
    and "\<forall>i. Suc i < length ys \<longrightarrow> \<bar>ys ! Suc i - ys ! i\<bar> \<le> 2"
    and "length grid = length xs" "\<forall>row\<in>set grid. length row = length ys"
  shows "\<exists>res. neighbours_loop cur grid xs ys ds acc k = Inr res"
proof (induction ds arbitrary: acc k)
  case Nil
  then show ?case by simp
next
  case (Cons d ds)
  let ?px = "fst (position cur) + fst d" and ?py = "snd (position cur) + snd d"
  show ?case
  proof (cases "?px > np_max xs \<or> ?px < np_min xs \<or> ?py > np_max ys \<or> ?py < np_min ys")
    case True
    then show ?thesis using Cons.IH[of acc k] assms(1,2) by (auto simp: Let_def)
  next
    case False
    then have inx: "\<not> (?px > np_max xs \<or> ?px < np_min xs)"
      and iny: "\<not> (?py > np_max ys \<or> ?py < np_min ys)" by auto
    from lookup_in_range[OF assms(1,3) inx] obtain i where
      i: "i < length xs" "next_close xs ?px 0 = Inr i" by blast
    from lookup_in_range[OF assms(2,4) iny] obtain j where
      j: "j < length ys" "next_close ys ?py 0 = Inr j" by blast
    have gi: "\<not> length grid \<le> i" using i(1) assms(5) by simp
    then have "grid ! i \<in> set grid" by simp
    then have gj: "\<not> length (grid ! i) \<le> j" using j(1) assms(6) by simp
    show ?thesis
      using False assms(1,2) i(2) j(2) gi gj Cons.IH[of acc k]
        Cons.IH[of "acc @ [Node (Some cur) (?px, ?py) 0 0 0 k]" "Suc k"]
      by (simp add: Let_def)
  qed
qed

text \<open>
  Claim C3, as stated, fails: the tolerance of the lookup does not follow the resolution.
  On the grid that the layout (0,0)-(2,2) gets at resolution 1/4, the candidate 3/2 is
  looked up as index 2, whose coordinate 0.571 is more than three resolution steps away,
  although index 5 (coordinate 1.429) lies within half a step.
\<close>

theorem lookup_tolerance_not_scaled_counterexample:
  "generate_grid fine_layout (1 / 4)
     = Inr (replicate 8 (replicate 8 0),
            [0, 143 / 500, 571 / 1000, 857 / 1000, 1143 / 1000, 1429 / 1000, 857 / 500, 2],
            [0, 143 / 500, 571 / 1000, 857 / 1000, 1143 / 1000, 1429 / 1000, 857 / 500, 2])
 \<and> next_close [0, 143 / 500, 571 / 1000, 857 / 1000, 1143 / 1000, 1429 / 1000, 857 / 500, 2]
      (3 / 2) 0 = Inr 2
 \<and> 3 * (1 / 4) < \<bar>[0, 143 / 500, 571 / 1000, 857 / 1000, 1143 / 1000, 1429 / 1000, 857 / 500, 2] ! 2
                    - (3 / 2 :: rat)\<bar>
 \<and> \<bar>[0, 143 / 500, 571 / 1000, 857 / 1000, 1143 / 1000, 1429 / 1000, 857 / 500, 2] ! 5
      - (3 / 2 :: rat)\<bar> < (1 / 4) / 2"
proof (intro conjI)
  show "generate_grid fine_layout (1 / 4)
     = Inr (replicate 8 (replicate 8 0),
            [0, 143 / 500, 571 / 1000, 857 / 1000, 1143 / 1000, 1429 / 1000, 857 / 500, 2],
            [0, 143 / 500, 571 / 1000, 857 / 1000, 1143 / 1000, 1429 / 1000, 857 / 500, 2])"
    by code_simp
  show "next_close [0, 143 / 500, 571 / 1000, 857 / 1000, 1143 / 1000, 1429 / 1000, 857 / 500, 2]
      (3 / 2) 0 = Inr 2"
    by (simp add: np_isclose_def)
qed simp_all

text \<open>
  Claim C3, amended. In neighbour generation the lookup of a candidate's cell uses the
  absolute tolerance 1 (plus numpy's relative tolerance, 1e-5 of the candidate's
  magnitude) at every resolution: it yields the first index whose coordinate lies within
  that tolerance of the candidate, and raises \<^verbatim>\<open>StopIteration\<close> exactly when no
  coordinate does.
\<close>

theorem lookup_tolerance_is_fixed:
  "(next_close xs v 0 = Inr j \<longleftrightarrow>
      j < length xs \<and> \<bar>xs ! j - v\<bar> \<le> 1 + \<bar>v\<bar> / 100000
      \<and> (\<forall>k<j. \<not> \<bar>xs ! k - v\<bar> \<le> 1 + \<bar>v\<bar> / 100000))
 \<and> (next_close xs v 0 = Inl e \<longleftrightarrow>
      e = StopIteration \<and> (\<forall>k<length xs. \<not> \<bar>xs ! k - v\<bar> \<le> 1 + \<bar>v\<bar> / 100000))"
proof
  show "next_close xs v 0 = Inr j \<longleftrightarrow>
      j < length xs \<and> \<bar>xs ! j - v\<bar> \<le> 1 + \<bar>v\<bar> / 100000
      \<and> (\<forall>k<j. \<not> \<bar>xs ! k - v\<bar> \<le> 1 + \<bar>v\<bar> / 100000)"
    using next_close_Inr_iff[of xs v j] by (simp add: np_isclose_def)
  have "(\<forall>a\<in>set xs. \<not> np_isclose a v 1) \<longleftrightarrow> (\<forall>k<length xs. \<not> np_isclose (xs ! k) v 1)"
    by (simp add: all_set_conv_all_nth)
  then show "next_close xs v 0 = Inl e \<longleftrightarrow>
      e = StopIteration \<and> (\<forall>k<length xs. \<not> \<bar>xs ! k - v\<bar> \<le> 1 + \<bar>v\<bar> / 100000)"
    using next_close_Inl_iff[of xs v 0 e] by (simp add: np_isclose_def)
qed

theorem lookup_tolerance_is_fixed_witness:
  "next_close [0, 1, 2, 3] 3 0 = Inr 2 \<and> next_close [0, 5, 10] 3 0 = Inl StopIteration"
proof -
  have a: "\<forall>k<2. \<not> \<bar>[0, 1, 2, 3::rat] ! k - 3\<bar> \<le> 1 + \<bar>3\<bar> / 100000"
    by (auto simp: less_Suc_eq numeral_2_eq_2)
  have b: "\<forall>k<length [0, 5, 10::rat]. \<not> \<bar>[0, 5, 10::rat] ! k - 3\<bar> \<le> 1 + \<bar>3\<bar> / 100000"
    by (auto simp: less_Suc_eq numeral_3_eq_3)
  show ?thesis
    using lookup_tolerance_is_fixed[of "[0, 1, 2, 3]" 3 2 StopIteration]
      lookup_tolerance_is_fixed[of "[0, 5, 10]" 3 0 StopIteration] a b
    by simp
qed

text \<open>
  Claim C10, as stated, fails for a coarse grid: at resolution 3 the layout (0,0)-(10,10)
  gets the axes 0, 5, 10; the candidate 3 passes the bounds check, no coordinate lies
  within the tolerance, and the routing function ends with \<^verbatim>\<open>StopIteration\<close>.
\<close>

theorem lookup_fails_on_coarse_axes_counterexample:
  "generate_grid wide_layout 3 = Inr (replicate 3 (replicate 3 0), [0, 5, 10], [0, 5, 10])
 \<and> \<not> ((3::rat) > np_max [0, 5, 10] \<or> 3 < np_min [0, 5, 10])
 \<and> next_close [0, 5, 10] 3 0 = Inl StopIteration
 \<and> astar_routing wide_layout wide_west_port wide_east_port 3 ''strip'' = Some (Inl StopIteration)"
proof (intro conjI)
  show "generate_grid wide_layout 3 = Inr (replicate 3 (replicate 3 0), [0, 5, 10], [0, 5, 10])"
    by code_simp
  show "\<not> ((3::rat) > np_max [0, 5, 10] \<or> 3 < np_min [0, 5, 10])"
    by (simp add: np_max_def np_min_def)
  show "next_close [0, 5, 10] 3 0 = Inl StopIteration"
    by (simp add: np_isclose_def)
  show "astar_routing wide_layout wide_west_port wide_east_port 3 ''strip'' = Some (Inl StopIteration)"
    by code_simp
qed

text \<open>
  Claim C10, amended. On non-empty axes whose neighbouring coordinates are at most 2
  apart (and a grid of matching dimensions), every candidate that passes the bounds check
  finds a coordinate within the tolerance on both axes, and neighbour generation returns
  a list of neighbours without raising.
\<close>

theorem neighbours_total_on_close_axes:
  assumes "xs \<noteq> []" "ys \<noteq> []"
    and "\<forall>i. Suc i < length xs \<longrightarrow> \<bar>xs ! Suc i - xs ! i\<bar> \<le> 2"
    and "\<forall>i. Suc i < length ys \<longrightarrow> \<bar>ys ! Suc i - ys ! i\<bar> \<le> 2"
    and "length grid = length xs" "\<forall>row\<in>set grid. length row = length ys"
  shows "(\<forall>v. \<not> (v > np_max xs \<or> v < np_min xs) \<longrightarrow> (\<exists>i<length xs. next_close xs v 0 = Inr i))
       \<and> (\<forall>v. \<not> (v > np_max ys \<or> v < np_min ys) \<longrightarrow> (\<exists>j<length ys. next_close ys v 0 = Inr j))
       \<and> (\<exists>neighbours k'. generate_neighbours cur grid xs ys r k = Inr (neighbours, k'))"
proof (intro conjI allI impI)
  fix v assume "\<not> (v > np_max xs \<or> v < np_min xs)"
  then show "\<exists>i<length xs. next_close xs v 0 = Inr i"
    by (rule lookup_in_range[OF assms(1,3)])
next
  fix v assume "\<not> (v > np_max ys \<or> v < np_min ys)"
  then show "\<exists>j<length ys. next_close ys v 0 = Inr j"
    by (rule lookup_in_range[OF assms(2,4)])
next
  from neighbours_loop_total[OF assms] 
  show "\<exists>neighbours k'. generate_neighbours cur grid xs ys r k = Inr (neighbours, k')"
    unfolding generate_neighbours_def by (metis surj_pair)
qed


theorem neighbours_total_on_close_axes_witness:
  "(\<exists>i<4. next_close [0, 1333 / 1000, 2667 / 1000, 4] 2 0 = Inr i)
 \<and> (\<exists>neighbours k'. generate_neighbours (Node None (1, 2) 0 0 0 0) (replicate 4 (replicate 4 0))
        [0, 1333 / 1000, 2667 / 1000, 4] [0, 1333 / 1000, 2667 / 1000, 4] 1 2 = Inr (neighbours, k'))"
proof -
  let ?X = "[0, 1333 / 1000, 2667 / 1000, 4] :: rat list"
  have 1: "?X \<noteq> []" by simp
  have 2: "\<forall>i. Suc i < length ?X \<longrightarrow> \<bar>?X ! Suc i - ?X ! i\<bar> \<le> 2"
    by (auto simp: less_Suc_eq)
  have 3: "length (replicate 4 (replicate 4 (0::rat))) = length ?X" by simp
  have 4: "\<forall>row\<in>set (replicate 4 (replicate 4 (0::rat))). length row = length ?X" by simp
  have 5: "\<not> ((2::rat) > np_max ?X \<or> 2 < np_min ?X)" by (simp add: np_max_def np_min_def)
  show ?thesis
    using neighbours_total_on_close_axes[OF 1 1 2 2 3 4, of "Node None (1, 2) 0 0 0 0" 1 2] 5
    by (simp add: np_isclose_def)
qed

subsection \<open>Node costs\<close>

lemma trace_back_nonempty: "trace_back n \<noteq> []"
  by (induction n rule: trace_back.induct) auto

lemma costs_consistent_steps:
  "costs_consistent env n \<Longrightarrow>
     g n = of_nat (length (trace_back n) - 1) * env_resolution env \<and> f n = g n + h n"
proof (induction n rule: trace_back.induct)
  case (1 pos gv hv fv k)
  then show ?case by simp
next
  case (2 p pos gv hv fv k)
  then have "g p = of_nat (length (trace_back p) - 1) * env_resolution env" by simp
  moreover have "length (trace_back p) \<noteq> 0" using trace_back_nonempty by simp
  ultimately show ?case using 2
    by (cases "length (trace_back p)") (auto simp: algebra_simps)
qed

lemma costs_consistent_parent:
  "costs_consistent env n \<Longrightarrow> parent n = Some p \<Longrightarrow>
     g n = g p + env_resolution env
   \<and> h n = (fst (position n) - fst (position (env_end env)))\<^sup>2
         + (snd (position n) - snd (position (env_end env)))\<^sup>2
   \<and> costs_consistent env p"
  by (cases n) auto

lemma set_costs_consistent:
  assumes "costs_consistent env cur" "parent nb = Some cur"
  shows "costs_consistent env (set_costs env cur nb)"
  using assms by (cases nb) (simp add: set_costs_def Let_def)

lemma iteration_costs_consistent:
  assumes "astar_iteration env open_list closed_list k = Continue open_list' closed_list' k'"
    and "open_list \<noteq> []"
    and "\<forall>n\<in>set open_list \<union> set closed_list. costs_consistent env n"
  shows "\<forall>n\<in>set open_list' \<union> set closed_list'. costs_consistent env n"
proof -
  from assms(1,2) obtain cur nbs where
    cur: "cur \<in> set open_list"
    and nbs: "generate_neighbours cur (env_grid env) (env_x env) (env_y env) (env_resolution env) k
       = Inr (nbs, k')"
    and cl: "closed_list' = closed_list @ [cur]"
    and ol: "set open_list' \<subseteq> set open_list \<union> set_costs env cur ` set nbs"
    by (rule iteration_Continue)
  have c: "costs_consistent env cur" using cur assms(3) by simp
  have "costs_consistent env (set_costs env cur nb)" if "nb \<in> set nbs" for nb
    using c generate_neighbours_parent[OF nbs that] by (rule set_costs_consistent)
  then show ?thesis using ol cl c assms(3) by auto
qed

lemma passes_costs_consistent:
  assumes "astar_passes n env open_list closed_list k = Some (open_list', closed_list', k')"
    and "\<forall>n\<in>set open_list \<union> set closed_list. costs_consistent env n"
  shows "\<forall>n\<in>set open_list' \<union> set closed_list'. costs_consistent env n"
  using assms
proof (induction n arbitrary: open_list closed_list k)
  case 0
  then show ?case by simp
next
  case (Suc n)
  from Suc.prems(1) have ne: "open_list \<noteq> []" by (auto split: if_splits)
  from Suc.prems(1) ne obtain ol cl k1 where
    it: "astar_iteration env open_list closed_list k = Continue ol cl k1"
    and rest: "astar_passes n env ol cl k1 = Some (open_list', closed_list', k')"
    by (auto split: step.splits)
  from iteration_costs_consistent[OF it ne Suc.prems(2)]
  show ?case by (rule Suc.IH[OF rest])
qed

text \<open>
  Claim C6. For every node in the open or closed list of any state the search reaches:
  \<open>f\<close> equals \<open>g + h\<close>; \<open>g\<close> equals the number of steps from the root times the
  resolution; and a node with a parent (every node created during the search) has the
  parent's \<open>g\<close> plus exactly one resolution step as its \<open>g\<close>, and as its \<open>h\<close> the squared
  Euclidean distance between its position and the end node's position (in the
  coordinates that the positions are stored in).
\<close>

theorem node_costs:
  assumes "astar_setup c p_in p_out r xs = Inr (env, s)"
    and "astar_passes n env [s] [] 2 = Some (open_list, closed_list, k)"
    and "nd \<in> set open_list \<union> set closed_list"
  shows "f nd = g nd + h nd
       \<and> g nd = of_nat (length (trace_back nd) - 1) * r
       \<and> (\<forall>p. parent nd = Some p \<longrightarrow>
            g nd = g p + r
          \<and> h nd = (fst (position nd) - fst (position (env_end env)))\<^sup>2
                 + (snd (position nd) - snd (position (env_end env)))\<^sup>2)"
proof -
  from assms(1) have r: "env_resolution env = r" and s: "costs_consistent env s"
    by (auto elim!: astar_setup_Inr simp: anchor_node_def)
  from s have "\<forall>n\<in>set [s] \<union> set []. costs_consistent env n" by simp
  from passes_costs_consistent[OF assms(2) this] assms(3)
  have nd: "costs_consistent env nd" by blast
  show ?thesis
    using costs_consistent_steps[OF nd] costs_consistent_parent[OF nd] r by auto
qed

theorem node_costs_witness:
  "f (Node (Some (Node None (1, 2) 0 0 0 0)) (0, 2) 1 9 10 4) = 1 + 9
 \<and> g (Node (Some (Node None (1, 2) 0 0 0 0)) (0, 2) 1 9 10 4)
     = of_nat (length (trace_back (Node (Some (Node None (1, 2) 0 0 0 0)) (0, 2) 1 9 10 4)) - 1) * 1
 \<and> h (Node (Some (Node None (1, 2) 0 0 0 0)) (0, 2) 1 9 10 4) = (0 - 3)\<^sup>2 + (2 - 2)\<^sup>2"
proof -
  let ?env = "\<lparr>env_grid = replicate 4 (replicate 4 0),
               env_x = [0, 1333 / 1000, 2667 / 1000, 4], env_y = [0, 1333 / 1000, 2667 / 1000, 4],
               env_resolution = 1,
               env_end = Node None (3, 2) 0 0 0 1, env_input = west_port,
               env_output = east_port, env_cross_section = ''strip''\<rparr>"
  let ?s = "Node None (1, 2) 0 0 0 0"
  have 1: "astar_setup open_layout west_port east_port 1 ''strip'' = Inr (?env, ?s)"
    by code_simp
  have 2: "astar_passes 1 ?env [?s] [] 2
     = Some ([Node (Some ?s) (1, 1) 1 5 6 2, Node (Some ?s) (1, 3) 1 5 6 3,
              Node (Some ?s) (0, 2) 1 9 10 4, Node (Some ?s) (2, 2) 1 1 2 5], [?s], 6)"
    by code_simp
  have 3: "Node (Some ?s) (0, 2) 1 9 10 4
     \<in> set [Node (Some ?s) (1, 1) 1 5 6 2, Node (Some ?s) (1, 3) 1 5 6 3,
              Node (Some ?s) (0, 2) 1 9 10 4, Node (Some ?s) (2, 2) 1 1 2 5] \<union> set [?s]"
    by simp
  show ?thesis
    using node_costs[OF 1 2 3] by simp
qed


subsection \<open>Path reconstruction\<close>

text \<open>Every result of the loop comes from a state that finitely many passes lead to:
  an empty open list there gives the fallback, a pass that returns gives the waypoints, a
  pass that raises gives the error.\<close>

lemma astar_passes_Suc:
  "open_list \<noteq> [] \<Longrightarrow> astar_iteration env open_list closed_list k = Continue ol cl k1 \<Longrightarrow>
     astar_passes (Suc m) env open_list closed_list k = astar_passes m env ol cl k1"
  by simp

lemma astar_while_result:
  assumes "astar_while env open_list closed_list k = Some res"
  shows "\<exists>m ol cl k'. astar_passes m env open_list closed_list k = Some (ol, cl, k')
      \<and> loop_outcome env ol cl k' res"
proof (rule astar_while.raw_induct[where P = "\<lambda>env open_list closed_list k res.
      \<exists>m ol cl k'. astar_passes m env open_list closed_list k = Some (ol, cl, k')
      \<and> loop_outcome env ol cl k' res", OF _ assms], goal_cases)
  case (1 loop env open_list closed_list k res)
  show ?case
  proof (cases "open_list = []")
    case True
    with 1(2) have "astar_passes 0 env open_list closed_list k = Some (open_list, closed_list, k)
      \<and> loop_outcome env open_list closed_list k res"
      by (simp add: loop_outcome_def)
    then show ?thesis by blast
  next
    case False
    show ?thesis
    proof (cases "astar_iteration env open_list closed_list k")
      case (Return points)
      with 1(2) False have "astar_passes 0 env open_list closed_list k = Some (open_list, closed_list, k)
        \<and> loop_outcome env open_list closed_list k res"
        by (auto simp: loop_outcome_def)
      then show ?thesis by blast
    next
      case (Raise e)
      with 1(2) False have "astar_passes 0 env open_list closed_list k = Some (open_list, closed_list, k)
        \<and> loop_outcome env open_list closed_list k res"
        by (auto simp: loop_outcome_def)
      then show ?thesis by blast
    next
      case (Continue ol1 cl1 k1)
      with 1(2) False have "loop env ol1 cl1 k1 = Some res" by simp
      from 1(1)[OF this] obtain m ol cl k' where
        m: "astar_passes m env ol1 cl1 k1 = Some (ol, cl, k')"
        and fin: "loop_outcome env ol cl k' res" by blast
      have "astar_passes (Suc m) env open_list closed_list k = Some (ol, cl, k')"
        using astar_passes_Suc[OF False Continue] m by simp
      with fin show ?thesis by blast
    qed
  qed
qed

lemma iteration_Return_iff:
  "astar_iteration env open_list closed_list k = Return points \<longleftrightarrow>
     position (open_list ! current_index open_list) = position (env_end env)
   \<and> points = center (env_input env) # rev (trace_back (open_list ! current_index open_list))
                @ [center (env_output env)]"
  by (auto simp: astar_iteration_def Let_def prod_eq_iff split: if_splits sum.splits)

text \<open>Every node of the open list descends from the start node.\<close>

lemma set_costs_trace_back: "trace_back (set_costs env cur nb) = trace_back nb"
  by (cases nb rule: trace_back.cases) (simp_all add: set_costs_def Let_def)

lemma trace_back_parent: "parent nb = Some cur \<Longrightarrow> last (trace_back nb) = last (trace_back cur)"
  by (cases nb rule: trace_back.cases) (simp_all add: trace_back_nonempty)

lemma iteration_root:
  assumes "astar_iteration env open_list closed_list k = Continue open_list' closed_list' k'"
    and "open_list \<noteq> []"
    and "\<forall>n\<in>set open_list. last (trace_back n) = rt"
  shows "\<forall>n\<in>set open_list'. last (trace_back n) = rt"
proof -
  from assms(1,2) obtain cur nbs where
    cur: "cur \<in> set open_list"
    and nbs: "generate_neighbours cur (env_grid env) (env_x env) (env_y env) (env_resolution env) k
       = Inr (nbs, k')"
    and ol: "set open_list' \<subseteq> set open_list \<union> set_costs env cur ` set nbs"
    by (rule iteration_Continue)
  have "last (trace_back (set_costs env cur nb)) = rt" if "nb \<in> set nbs" for nb
    using trace_back_parent[OF generate_neighbours_parent[OF nbs that]] cur assms(3)
    by (simp add: set_costs_trace_back)
  then show ?thesis using ol assms(3) by auto
qed

lemma passes_root:
  assumes "astar_passes n env open_list closed_list k = Some (open_list', closed_list', k')"
    and "\<forall>n\<in>set open_list. last (trace_back n) = rt"
  shows "\<forall>n\<in>set open_list'. last (trace_back n) = rt"
  using assms
proof (induction n arbitrary: open_list closed_list k)
  case 0
  then show ?case by simp
next
  case (Suc n)
  from Suc.prems(1) have ne: "open_list \<noteq> []" by (auto split: if_splits)
  from Suc.prems(1) ne obtain ol cl k1 where
    it: "astar_iteration env open_list closed_list k = Continue ol cl k1"
    and rest: "astar_passes n env ol cl k1 = Some (open_list', closed_list', k')"
    by (auto split: step.splits)
  from iteration_root[OF it ne Suc.prems(2)]
  show ?case by (rule Suc.IH[OF rest])
qed

text \<open>
  Claim C8. The routing function returns a route built from waypoints exactly when some
  reached state expands a node whose coordinate equals the end node's (the node of least
  \<open>f\<close> in a non-empty open list). No warning is emitted then, and the waypoints are the
  true center of the input port, followed by the positions along the parent links from
  that node back to the root, reversed, followed by the true center of the output port.
  The root of every such chain is the start node.
\<close>

theorem waypoints_on_success:
  assumes "astar_setup c p_in p_out r xs = Inr (env, s)"
  shows "(astar_routing c p_in p_out r xs
            = Some (Inr (warnings, Get_route_from_waypoints points xs'))
          \<longleftrightarrow> warnings = [] \<and> xs' = xs
            \<and> (\<exists>n open_list closed_list k.
                  astar_passes n env [s] [] 2 = Some (open_list, closed_list, k)
                \<and> open_list \<noteq> []
                \<and> position (open_list ! current_index open_list) = position (env_end env)
                \<and> points = center p_in
                    # rev (trace_back (open_list ! current_index open_list)) @ [center p_out]))
       \<and> (\<forall>n open_list closed_list k nd.
             astar_passes n env [s] [] 2 = Some (open_list, closed_list, k)
             \<longrightarrow> nd \<in> set open_list \<longrightarrow> last (trace_back nd) = position s)"
proof -
  let ?R = "warnings = [] \<and> xs' = xs
            \<and> (\<exists>n open_list closed_list k.
                  astar_passes n env [s] [] 2 = Some (open_list, closed_list, k)
                \<and> open_list \<noteq> []
                \<and> position (open_list ! current_index open_list) = position (env_end env)
                \<and> points = center p_in
                    # rev (trace_back (open_list ! current_index open_list)) @ [center p_out])"
  from assms have env: "env_input env = p_in" "env_output env = p_out"
    "env_cross_section env = xs" and root: "trace_back s = [position s]"
    and routing: "astar_routing c p_in p_out r xs = astar_while env [s] [] 2"
    by (auto elim!: astar_setup_Inr simp: anchor_node_def astar_routing_def)
  have forth: "?R" if "astar_routing c p_in p_out r xs
            = Some (Inr (warnings, Get_route_from_waypoints points xs'))"
  proof -
    from that have "astar_while env [s] [] 2
        = Some (Inr (warnings, Get_route_from_waypoints points xs'))"
      by (simp add: routing)
    from astar_while_result[OF this] obtain m ol cl k' where
      m: "astar_passes m env [s] [] 2 = Some (ol, cl, k')"
      and ne: "ol \<noteq> []"
      and it: "astar_iteration env ol cl k' = Return points"
      and w: "warnings = []" "xs' = env_cross_section env"
      by (auto simp: loop_outcome_def split: if_splits step.splits)
    from it m ne w env show ?thesis
      unfolding iteration_Return_iff by blast
  qed
  have bwd: "astar_routing c p_in p_out r xs
            = Some (Inr (warnings, Get_route_from_waypoints points xs'))" if "?R"
  proof -
    from that obtain n ol cl k where w: "warnings = []" "xs' = xs"
      and m: "astar_passes n env [s] [] 2 = Some (ol, cl, k)" and ne: "ol \<noteq> []"
      and "position (ol ! current_index ol) = position (env_end env)"
        "points = center p_in # rev (trace_back (ol ! current_index ol)) @ [center p_out]"
      by blast
    then have it: "astar_iteration env ol cl k = Return points"
      by (simp add: iteration_Return_iff env)
    have "astar_while env [s] [] 2 = astar_while env ol cl k"
      using m by (rule astar_passes_while)
    also have "\<dots> = Some (Inr ([], Get_route_from_waypoints points (env_cross_section env)))"
      using ne it by (subst astar_while.simps) simp
    finally show ?thesis
      by (simp add: routing w env)
  qed
  have rt: "last (trace_back nd) = position s"
    if m: "astar_passes n env [s] [] 2 = Some (open_list, closed_list, k)"
      and nd: "nd \<in> set open_list" for n open_list closed_list k nd
  proof -
    have "\<forall>n\<in>set [s]. last (trace_back n) = position s" by (simp add: root)
    from passes_root[OF m this] nd show ?thesis by simp
  qed
  from forth bwd rt show ?thesis by blast
qed

theorem waypoints_on_success_witness:
  "astar_routing open_layout west_port east_port 1 ''strip''
     = Some (Inr ([], Get_route_from_waypoints [(0, 2), (1, 2), (2, 2), (3, 2), (4, 2)] ''strip''))
 \<and> (\<exists>n open_list closed_list k.
      astar_passes n \<lparr>env_grid = replicate 4 (replicate 4 0),
               env_x = [0, 1333 / 1000, 2667 / 1000, 4], env_y = [0, 1333 / 1000, 2667 / 1000, 4],
               env_resolution = 1,
               env_end = Node None (3, 2) 0 0 0 1, env_input = west_port,
               env_output = east_port, env_cross_section = ''strip''\<rparr>
        [Node None (1, 2) 0 0 0 0] [] 2 = Some (open_list, closed_list, k)
    \<and> position (open_list ! current_index open_list) = (3, 2)
    \<and> last (trace_back (open_list ! current_index open_list)) = (1, 2)
    \<and> [(0, 2), (1, 2), (2, 2), (3, 2), (4, 2)]
        = center west_port # rev (trace_back (open_list ! current_index open_list))
            @ [center east_port])"
proof -
  let ?env = "\<lparr>env_grid = replicate 4 (replicate 4 0),
               env_x = [0, 1333 / 1000, 2667 / 1000, 4], env_y = [0, 1333 / 1000, 2667 / 1000, 4],
               env_resolution = 1,
               env_end = Node None (3, 2) 0 0 0 1, env_input = west_port,
               env_output = east_port, env_cross_section = ''strip''\<rparr>"
  let ?s = "Node None (1, 2) 0 0 0 0"
  have 1: "astar_setup open_layout west_port east_port 1 ''strip'' = Inr (?env, ?s)"
    by code_simp
  have 2: "astar_routing open_layout west_port east_port 1 ''strip''
     = Some (Inr ([], Get_route_from_waypoints [(0, 2), (1, 2), (2, 2), (3, 2), (4, 2)] ''strip''))"
    by code_simp
  from waypoints_on_success[OF 1, of "[]" "[(0, 2), (1, 2), (2, 2), (3, 2), (4, 2)]" "''strip''"] 2
  obtain n ol cl k where
    m: "astar_passes n ?env [?s] [] 2 = Some (ol, cl, k)" and ne: "ol \<noteq> []"
    and g: "position (ol ! current_index ol) = position (env_end ?env)"
    and p: "[(0, 2), (1, 2), (2, 2), (3, 2), (4, 2)]
        = center west_port # rev (trace_back (ol ! current_index ol)) @ [center east_port]"
    and rt: "\<forall>n open_list closed_list k nd.
             astar_passes n ?env [?s] [] 2 = Some (open_list, closed_list, k)
             \<longrightarrow> nd \<in> set open_list \<longrightarrow> last (trace_back nd) = position ?s"
    by blast
  have "ol ! current_index ol \<in> set ol" using current_index_less[OF ne] by simp
  with rt m have "last (trace_back (ol ! current_index ol)) = (1, 2)" by fastforce
  with m g p 2 show ?thesis by auto
qed

subsection \<open>Rasterization\<close>

text \<open>
  Claim C5 fails on the code. For the layout (0,0)-(10,10) with the wall over x in [4,6]
  and y in [0,10], at resolution 1, the grid point (5.556, 5.556) lies inside the wall,
  yet its cell holds 0: the slice \<^verbatim>\<open>grid[xmin:xmax, ymin:ymax]\<close> stops before the index
  nearest to the max corner, so only the column of index 4 is marked.
\<close>

theorem wall_cell_left_free:
  "(case generate_grid wall_layout 1 of
      Inl e \<Rightarrow> False
    | Inr (grid, xs, ys) \<Rightarrow>
        xs ! 5 = 5556 / 1000 \<and> ys ! 5 = 5556 / 1000
      \<and> 4 < xs ! 5 \<and> xs ! 5 < 6 \<and> 0 < ys ! 5 \<and> ys ! 5 < 10
      \<and> grid ! 5 ! 5 = 0 \<and> grid ! 4 ! 5 = 1)"
  by code_simp

subsection \<open>The open and closed lists\<close>

lemma blocked_setup:
  "astar_setup blocked_layout west_port blocked_east_port 1 ''strip''
     = Inr (blocked_env, Node None (1, 2) 0 0 0 0)"
  by code_simp

text \<open>
  Claim C1 fails on the code. On the blocked layout, after three passes of the loop the
  coordinate (1,2), already in the closed list, stands twice in the open list; the fourth
  pass expands it a second time. The two scans of the neighbour loop skip nothing (see
  \<open>add_neighbours_eq\<close>).
\<close>

theorem closed_coordinate_reopened:
  "astar_setup blocked_layout west_port blocked_east_port 1 ''strip''
     = Inr (blocked_env, Node None (1, 2) 0 0 0 0)
 \<and> map_option (\<lambda>(ol, cl, k). (map position ol, map position cl))
      (astar_passes 3 blocked_env [Node None (1, 2) 0 0 0 0] [] 2)
     = Some ([(0, 2), (1, 0), (1, 2), (0, 1), (1, 2), (1, 4), (0, 3)],
             [(1, 2), (1, 1), (1, 3)])
 \<and> map_option (\<lambda>(ol, cl, k). map position cl)
      (astar_passes 4 blocked_env [Node None (1, 2) 0 0 0 0] [] 2)
     = Some [(1, 2), (1, 1), (1, 3), (1, 2)]"
proof (intro conjI)
  show "astar_setup blocked_layout west_port blocked_east_port 1 ''strip''
     = Inr (blocked_env, Node None (1, 2) 0 0 0 0)"
    by (rule blocked_setup)
  show "map_option (\<lambda>(ol, cl, k). (map position ol, map position cl))
      (astar_passes 3 blocked_env [Node None (1, 2) 0 0 0 0] [] 2)
     = Some ([(0, 2), (1, 0), (1, 2), (0, 1), (1, 2), (1, 4), (0, 3)],
             [(1, 2), (1, 1), (1, 3)])"
    by code_simp
  show "map_option (\<lambda>(ol, cl, k). map position cl)
      (astar_passes 4 blocked_env [Node None (1, 2) 0 0 0 0] [] 2)
     = Some [(1, 2), (1, 1), (1, 3), (1, 2)]"
    by code_simp
qed

subsection \<open>Termination\<close>

text \<open>A set of positions that neighbour generation never leaves, in which every node has
  a neighbour and the end node does not lie, keeps the loop running forever.\<close>

lemma search_stays_in_region:
  assumes region: "\<And>cur k. position cur \<in> S \<Longrightarrow>
      \<exists>nbs k'. generate_neighbours cur (env_grid env) (env_x env) (env_y env)
                  (env_resolution env) k = Inr (nbs, k')
        \<and> nbs \<noteq> [] \<and> (\<forall>n\<in>set nbs. position n \<in> S)"
    and goal: "position (env_end env) \<notin> S"
    and start: "open_list \<noteq> []" "\<forall>n\<in>set open_list. position n \<in> S"
  shows "astar_while env open_list closed_list k = None"
proof (rule ccontr)
  assume "astar_while env open_list closed_list k \<noteq> None"
  then obtain res where res: "astar_while env open_list closed_list k = Some res" by auto
  have "env' = env \<longrightarrow> ol \<noteq> [] \<longrightarrow> (\<forall>n\<in>set ol. position n \<in> S) \<longrightarrow> False"
    if "astar_while env' ol cl j = Some y" for env' ol cl j y
  proof (rule astar_while.raw_induct[where P = "\<lambda>env' ol cl j y.
      env' = env \<longrightarrow> ol \<noteq> [] \<longrightarrow> (\<forall>n\<in>set ol. position n \<in> S) \<longrightarrow> False", OF _ that],
      goal_cases)
    case (1 loop env' ol cl j y)
    show ?case
    proof (intro impI)
      assume e: "env' = env" and ne: "ol \<noteq> []" and inS: "\<forall>n\<in>set ol. position n \<in> S"
      let ?ci = "current_index ol"
      let ?cur = "ol ! ?ci"
      have "?cur \<in> set ol" using current_index_less[OF ne] by simp
      then have cur: "position ?cur \<in> S" using inS by simp
      then have ng: "position ?cur \<noteq> position (env_end env)" using goal by auto
      from region[OF cur, of j] obtain nbs k' where
        nbs: "generate_neighbours ?cur (env_grid env) (env_x env) (env_y env)
                  (env_resolution env) j = Inr (nbs, k')"
        and nne: "nbs \<noteq> []" and nS: "\<forall>n\<in>set nbs. position n \<in> S" by blast
      let ?ol' = "take ?ci ol @ drop (Suc ?ci) ol @ map (set_costs env ?cur) nbs"
      have it: "astar_iteration env ol cl j = Continue ?ol' (cl @ [?cur]) k'"
        using ng nbs by (auto simp: astar_iteration_def Let_def prod_eq_iff add_neighbours_eq)
      with 1(2) ne e have "loop env ?ol' (cl @ [?cur]) k' = Some y" by simp
      moreover have "?ol' \<noteq> []" using nne by simp
      moreover have "\<forall>n\<in>set ?ol'. position n \<in> S"
        using inS nS set_take_subset[of ?ci ol] set_drop_subset[of "Suc ?ci" ol] by auto
      ultimately show False using 1(1) by blast
    qed
  qed
  from this[OF res] start show False by simp
qed

text \<open>On the blocked layout, the positions west of the wall are such a set.\<close>

lemma blocked_axis_max: "np_max [0, 3 / 2, 3, 9 / 2] = 9 / 2" "np_min [0, 3 / 2, 3, 9 / 2] = 0"
  by (simp_all add: np_max_def np_min_def)

lemma blocked_neighbours:
  "position cur = (0, 0) \<Longrightarrow>
     generate_neighbours cur (env_grid blocked_env) (env_x blocked_env) (env_y blocked_env)
       (env_resolution blocked_env) k
     = Inr ([Node (Some cur) (0, 1) 0 0 0 k, Node (Some cur) (1, 0) 0 0 0 (Suc k)], Suc (Suc k))"
  "position cur = (0, 1) \<Longrightarrow>
     generate_neighbours cur (env_grid blocked_env) (env_x blocked_env) (env_y blocked_env)
       (env_resolution blocked_env) k
     = Inr ([Node (Some cur) (0, 0) 0 0 0 k, Node (Some cur) (0, 2) 0 0 0 (Suc k), Node (Some cur) (1, 1) 0 0 0 (Suc (Suc k))], Suc (Suc (Suc k)))"
  "position cur = (0, 2) \<Longrightarrow>
     generate_neighbours cur (env_grid blocked_env) (env_x blocked_env) (env_y blocked_env)
       (env_resolution blocked_env) k
     = Inr ([Node (Some cur) (0, 1) 0 0 0 k, Node (Some cur) (0, 3) 0 0 0 (Suc k), Node (Some cur) (1, 2) 0 0 0 (Suc (Suc k))], Suc (Suc (Suc k)))"
  "position cur = (0, 3) \<Longrightarrow>
     generate_neighbours cur (env_grid blocked_env) (env_x blocked_env) (env_y blocked_env)
       (env_resolution blocked_env) k
     = Inr ([Node (Some cur) (0, 2) 0 0 0 k, Node (Some cur) (0, 4) 0 0 0 (Suc k), Node (Some cur) (1, 3) 0 0 0 (Suc (Suc k))], Suc (Suc (Suc k)))"
  "position cur = (0, 4) \<Longrightarrow>
     generate_neighbours cur (env_grid blocked_env) (env_x blocked_env) (env_y blocked_env)
       (env_resolution blocked_env) k
     = Inr ([Node (Some cur) (0, 3) 0 0 0 k, Node (Some cur) (1, 4) 0 0 0 (Suc k)], Suc (Suc k))"
  "position cur = (1, 0) \<Longrightarrow>
     generate_neighbours cur (env_grid blocked_env) (env_x blocked_env) (env_y blocked_env)
       (env_resolution blocked_env) k
     = Inr ([Node (Some cur) (1, 1) 0 0 0 k, Node (Some cur) (0, 0) 0 0 0 (Suc k)], Suc (Suc k))"
  "position cur = (1, 1) \<Longrightarrow>
     generate_neighbours cur (env_grid blocked_env) (env_x blocked_env) (env_y blocked_env)
       (env_resolution blocked_env) k
     = Inr ([Node (Some cur) (1, 0) 0 0 0 k, Node (Some cur) (1, 2) 0 0 0 (Suc k), Node (Some cur) (0, 1) 0 0 0 (Suc (Suc k))], Suc (Suc (Suc k)))"
  "position cur = (1, 2) \<Longrightarrow>
     generate_neighbours cur (env_grid blocked_env) (env_x blocked_env) (env_y blocked_env)
       (env_resolution blocked_env) k
     = Inr ([Node (Some cur) (1, 1) 0 0 0 k, Node (Some cur) (1, 3) 0 0 0 (Suc k), Node (Some cur) (0, 2) 0 0 0 (Suc (Suc k))], Suc (Suc (Suc k)))"
  "position cur = (1, 3) \<Longrightarrow>
     generate_neighbours cur (env_grid blocked_env) (env_x blocked_env) (env_y blocked_env)
       (env_resolution blocked_env) k
     = Inr ([Node (Some cur) (1, 2) 0 0 0 k, Node (Some cur) (1, 4) 0 0 0 (Suc k), Node (Some cur) (0, 3) 0 0 0 (Suc (Suc k))], Suc (Suc (Suc k)))"
  "position cur = (1, 4) \<Longrightarrow>
     generate_neighbours cur (env_grid blocked_env) (env_x blocked_env) (env_y blocked_env)
       (env_resolution blocked_env) k
     = Inr ([Node (Some cur) (1, 3) 0 0 0 k, Node (Some cur) (0, 4) 0 0 0 (Suc k)], Suc (Suc k))"
  by (simp_all add: blocked_env_def generate_neighbours_def Let_def blocked_axis_max np_isclose_def)

lemma blocked_region:
  assumes "position cur \<in> {(0, 0), (0, 1), (0, 2), (0, 3), (0, 4),
                            (1, 0), (1, 1), (1, 2), (1, 3), (1, 4)}"
  shows "\<exists>nbs k'. generate_neighbours cur (env_grid blocked_env) (env_x blocked_env)
                  (env_y blocked_env) (env_resolution blocked_env) k = Inr (nbs, k')
        \<and> nbs \<noteq> [] \<and> (\<forall>n\<in>set nbs. position n \<in> {(0, 0), (0, 1), (0, 2), (0, 3), (0, 4),
                            (1, 0), (1, 1), (1, 2), (1, 3), (1, 4)})"
  using assms by (elim insertE emptyE) (simp_all add: blocked_neighbours)

text \<open>
  Claim C2 fails on the code. On the blocked layout the wall separates the two ports; the
  open list never becomes empty, because every expanded node puts its neighbours back, and
  the routing function does not return.
\<close>

theorem blocked_search_never_returns:
  "astar_routing blocked_layout west_port blocked_east_port 1 ''strip'' = None"
proof -
  have "astar_while blocked_env [Node None (1, 2) 0 0 0 0] [] 2 = None"
  proof (rule search_stays_in_region[where S = "{(0, 0), (0, 1), (0, 2), (0, 3), (0, 4),
                            (1, 0), (1, 1), (1, 2), (1, 3), (1, 4)}"])
    show "position (env_end blocked_env) \<notin> {(0, 0), (0, 1), (0, 2), (0, 3), (0, 4),
                            (1, 0), (1, 1), (1, 2), (1, 3), (1, 4)}"
      by (simp add: blocked_env_def)
  qed (rule blocked_region, simp_all)
  then show ?thesis by (simp add: astar_routing_def blocked_setup)
qed

end
